theory Spec2Isabelle
  imports Complex_Main "HOL-Library.Multiset"
begin

section \<open>Cards, piles and pile references\<close>

datatype suit = spades | clubs | diamonds | hearts

text \<open>
  Modelled from the spec: the class \<^verbatim>\<open>Card\<close> is used by FreecellGame.class.js
  (\<^verbatim>\<open>new Card(v, suits[s])\<close>, the fields \<^verbatim>\<open>.value\<close> and \<^verbatim>\<open>.suit\<close>, the methods
  \<^verbatim>\<open>getValue()\<close> and \<^verbatim>\<open>isBlack()\<close>) but declared in another file. The spec has a card as
  an immutable pair of a rank and one of four suits, black when the suit is spades or
  clubs.
\<close>

datatype card = Card (cvalue: int) (csuit: suit)

definition getValue :: "card \<Rightarrow> int" where
  "getValue c = cvalue c"

definition isBlack :: "card \<Rightarrow> bool" where
  "isBlack c = (csuit c = spades \<or> csuit c = clubs)"

text \<open>
  An array slot holds a card or JavaScript's \<^verbatim>\<open>undefined\<close> (\<open>None\<close>): \<^verbatim>\<open>[].pop()\<close>
  is \<^verbatim>\<open>undefined\<close>, and \<^verbatim>\<open>push\<close> stores it like any value.
\<close>

type_synonym pile = "card option list"

record game =
  foundation :: "pile list"
  "open" :: "pile list"
  cascade :: "pile list"

text \<open>
  A pile reference \<^verbatim>\<open>{type: "cascade", index: 0, cardIndex: 5}\<close>. The code reads
  \<^verbatim>\<open>cardIndex\<close> of a cascade source only; in a reference that has none
  (\<^verbatim>\<open>{type: "open", index: 3}\<close>) the field of the model is never looked at. Indices
  are integers, negative ones included.
\<close>

record pile_ref =
  type :: string
  index :: int
  cardIndex :: int

datatype jsnum = Num rat | NaN | PosInfinity | NegInfinity

datatype error =
    TypeError
  | InvalidOpenPiles jsnum
  | InvalidCascadePiles jsnum

section \<open>JavaScript arrays\<close>

text \<open>\<^verbatim>\<open>a[i]\<close>: \<open>None\<close> is \<^verbatim>\<open>undefined\<close>, for every index outside the array.\<close>

definition elem :: "'a list \<Rightarrow> int \<Rightarrow> 'a option" where
  "elem xs i = (if 0 \<le> i \<and> i < int (length xs) then Some (xs ! nat i) else None)"

text \<open>\<^verbatim>\<open>p[i]\<close> on a pile: a missing slot and a slot holding \<^verbatim>\<open>undefined\<close> read the same.\<close>

definition slot :: "pile \<Rightarrow> int \<Rightarrow> card option" where
  "slot p i = (case elem p i of None \<Rightarrow> None | Some x \<Rightarrow> x)"

text \<open>\<^verbatim>\<open>p.pop()\<close>: the value returned and the array left.\<close>

definition pop :: "pile \<Rightarrow> card option \<times> pile" where
  "pop p = (if p = [] then (None, []) else (last p, butlast p))"

text \<open>
  The relative index of \<^verbatim>\<open>slice\<close>: a negative one counts from the end, and both
  are clamped to the array.
\<close>

definition sliceIndex :: "nat \<Rightarrow> int \<Rightarrow> nat" where
  "sliceIndex len k = nat (if k < 0 then max (int len + k) 0 else min k (int len))"

definition sliceFrom :: "'a list \<Rightarrow> int \<Rightarrow> 'a list" where
  "sliceFrom xs k = drop (sliceIndex (length xs) k) xs"

definition sliceTo :: "'a list \<Rightarrow> int \<Rightarrow> 'a list" where
  "sliceTo xs k = take (sliceIndex (length xs) k) xs"

section \<open>The deck\<close>

definition suits :: "suit list" where
  "suits = [spades, clubs, diamonds, hearts]"

definition orderedDeck :: "card list" where
  "orderedDeck = concat (map (\<lambda>v. map (\<lambda>s. Card v s) suits) (rev [1..13]))"

text \<open>\<^verbatim>\<open>[array[i], array[j]] = [array[j], array[i]]\<close>\<close>

definition swap :: "'a list \<Rightarrow> nat \<Rightarrow> nat \<Rightarrow> 'a list" where
  "swap xs i j = (xs[i := xs ! j])[j := xs ! i]"

text \<open>
  The loop of \<^verbatim>\<open>shuffle\<close>, from \<open>i\<close> down to 1. The random source is a parameter:
  \<open>rnd i\<close> is the value of \<^verbatim>\<open>Math.floor(Math.random() * (i + 1))\<close> in the iteration
  at \<open>i\<close>. \<^verbatim>\<open>Math.random()\<close> is below 1, so \<open>rnd i \<le> i\<close>; the theorems that need it
  assume it.
\<close>

fun shuffleFrom :: "(nat \<Rightarrow> nat) \<Rightarrow> nat \<Rightarrow> 'a list \<Rightarrow> 'a list" where
  "shuffleFrom rnd 0 xs = xs"
| "shuffleFrom rnd (Suc k) xs = shuffleFrom rnd k (swap xs (Suc k) (rnd (Suc k)))"

definition shuffle :: "(nat \<Rightarrow> nat) \<Rightarrow> 'a list \<Rightarrow> 'a list" where
  "shuffle rnd xs = shuffleFrom rnd (length xs - 1) xs"

definition getDeck :: "(nat \<Rightarrow> nat) \<Rightarrow> card list" where
  "getDeck rnd = shuffle rnd orderedDeck"

text \<open>The draws of a shuffle that leaves the deck as built: each card is swapped with itself.\<close>

definition noShuffle :: "nat \<Rightarrow> nat" where
  "noShuffle i = i"

section \<open>Construction\<close>

text \<open>
  \<^verbatim>\<open>parseInt(x, 10)\<close> of a number: \<open>None\<close> is \<^verbatim>\<open>NaN\<close>. The number is printed and its
  leading integer read, which is the number truncated towards zero whenever it is printed
  without an exponent (a magnitude from \<^verbatim>\<open>1e-6\<close> to below \<^verbatim>\<open>1e21\<close>, and zero). Beyond that
  the digits before the exponent are read, still a number; the constructor rejects those
  arguments by its range tests and never uses the value.
\<close>

fun parseInt :: "jsnum \<Rightarrow> int option" where
  "parseInt (Num x) = Some (if x < 0 then - \<lfloor>- x\<rfloor> else \<lfloor>x\<rfloor>)"
| "parseInt NaN = None"
| "parseInt PosInfinity = None"
| "parseInt NegInfinity = None"

text \<open>\<^verbatim>\<open>x < c\<close> and \<^verbatim>\<open>x > c\<close> against a numeric literal; \<^verbatim>\<open>NaN\<close> compares false.\<close>

fun jsLess :: "jsnum \<Rightarrow> rat \<Rightarrow> bool" where
  "jsLess (Num x) c = (x < c)"
| "jsLess NaN c = False"
| "jsLess PosInfinity c = False"
| "jsLess NegInfinity c = True"

fun jsGreater :: "jsnum \<Rightarrow> rat \<Rightarrow> bool" where
  "jsGreater (Num x) c = (x > c)"
| "jsGreater NaN c = False"
| "jsGreater PosInfinity c = True"
| "jsGreater NegInfinity c = False"

text \<open>\<^verbatim>\<open>this.cascade[i % numCascade].push(deck[i])\<close>, for the cards from position \<open>i\<close> on.\<close>

fun deal :: "card list \<Rightarrow> nat \<Rightarrow> nat \<Rightarrow> pile list \<Rightarrow> pile list" where
  "deal [] i numCascade ps = ps"
| "deal (c # cs) i numCascade ps =
     deal cs (i + 1) numCascade
       (ps[i mod numCascade := ps ! (i mod numCascade) @ [Some c]])"

text \<open>
  The constructor, for arguments that are JavaScript numbers. It returns the new game or
  throws the message naming the rejected argument.
\<close>

definition FreecellGame :: "(nat \<Rightarrow> nat) \<Rightarrow> jsnum \<Rightarrow> jsnum \<Rightarrow> error + game" where
  "FreecellGame rnd numOpen numCascade =
     (case parseInt numOpen of
        None \<Rightarrow> Inl (InvalidOpenPiles numOpen)
      | Some no \<Rightarrow>
          if jsLess numOpen 1 \<or> jsGreater numOpen 52 then Inl (InvalidOpenPiles numOpen)
          else
            (case parseInt numCascade of
               None \<Rightarrow> Inl (InvalidCascadePiles numCascade)
             | Some nc \<Rightarrow>
                 if jsLess numCascade 1 \<or> jsGreater numCascade 52
                 then Inl (InvalidCascadePiles numCascade)
                 else
                   Inr \<lparr> foundation = replicate 4 [],
                         open = replicate (nat no) [],
                         cascade = deal (getDeck rnd) 0 (nat nc) (replicate (nat nc) []) \<rparr>))"

definition getNumOpen :: "game \<Rightarrow> int" where
  "getNumOpen g = int (length (open g))"

definition getNumCascade :: "game \<Rightarrow> int" where
  "getNumCascade g = int (length (cascade g))"

section \<open>Queries\<close>

text \<open>
  \<^verbatim>\<open>_isStackable\<close>: both arguments must be cards (\<^verbatim>\<open>instanceof Card\<close>), so
  \<^verbatim>\<open>undefined\<close> stacks on nothing and nothing stacks on it.
\<close>

fun isStackable :: "card option \<Rightarrow> card option \<Rightarrow> bool" where
  "isStackable (Some underCard) (Some overCard) =
     (getValue underCard - 1 = getValue overCard \<and> isBlack overCard \<noteq> isBlack underCard)"
| "isStackable _ _ = False"

text \<open>The loop of \<^verbatim>\<open>getFirstAvailableOpen\<close> over the piles left, \<open>i\<close> the index of the first.\<close>

fun firstEmptyFrom :: "pile list \<Rightarrow> int \<Rightarrow> int" where
  "firstEmptyFrom [] i = - 1"
| "firstEmptyFrom (p # ps) i = (if length p = 0 then i else firstEmptyFrom ps (i + 1))"

definition getFirstAvailableOpen :: "game \<Rightarrow> int" where
  "getFirstAvailableOpen g = firstEmptyFrom (open g) 0"

text \<open>
  The card a source reference names, as \<^verbatim>\<open>getValidFoundation\<close> reads it:
  \<^verbatim>\<open>this.cascade[index][cardIndex]\<close> or \<^verbatim>\<open>this.open[index][0]\<close>, followed by
  \<^verbatim>\<open>.value\<close> or \<^verbatim>\<open>.suit\<close>. Either read throws a TypeError when the pile or the
  card is \<^verbatim>\<open>undefined\<close>.
\<close>

definition cardAt :: "pile list \<Rightarrow> int \<Rightarrow> int \<Rightarrow> error + card" where
  "cardAt piles i j =
     (case elem piles i of
        None \<Rightarrow> Inl TypeError
      | Some p \<Rightarrow> (case slot p j of None \<Rightarrow> Inl TypeError | Some c \<Rightarrow> Inr c))"

text \<open>
  The loop of the cascade branch of \<^verbatim>\<open>getValidFoundation\<close>, over the foundation
  indices left. At an empty foundation pile it returns at once, with or without a match.
\<close>

fun scanCascade :: "game \<Rightarrow> pile_ref \<Rightarrow> nat list \<Rightarrow> error + int" where
  "scanCascade g srcPile [] = Inr (- 1)"
| "scanCascade g srcPile (i # rest) =
     (case elem (foundation g) (int i) of
        None \<Rightarrow> Inl TypeError
      | Some f \<Rightarrow>
          if length f = 0 then
            (case cardAt (cascade g) (index srcPile) (cardIndex srcPile) of
               Inl e \<Rightarrow> Inl e
             | Inr c \<Rightarrow> if cvalue c = 1 then Inr (int i) else Inr (- 1))
          else
            (case slot f (int (length f) - 1) of
               None \<Rightarrow> Inl TypeError
             | Some topCard \<Rightarrow>
                 (case cardAt (cascade g) (index srcPile) (cardIndex srcPile) of
                    Inl e \<Rightarrow> Inl e
                  | Inr c \<Rightarrow>
                      if csuit topCard = csuit c \<and> cvalue topCard = cvalue c - 1 then Inr (int i)
                      else scanCascade g srcPile rest)))"

text \<open>The loop of the open branch: an empty foundation pile without a match is passed over.\<close>

fun scanOpen :: "game \<Rightarrow> pile_ref \<Rightarrow> nat list \<Rightarrow> error + int" where
  "scanOpen g srcPile [] = Inr (- 1)"
| "scanOpen g srcPile (i # rest) =
     (case elem (foundation g) (int i) of
        None \<Rightarrow> Inl TypeError
      | Some f \<Rightarrow>
          if length f = 0 then
            (case cardAt (open g) (index srcPile) 0 of
               Inl e \<Rightarrow> Inl e
             | Inr c \<Rightarrow> if cvalue c = 1 then Inr (int i) else scanOpen g srcPile rest)
          else
            (case slot f (int (length f) - 1) of
               None \<Rightarrow> Inl TypeError
             | Some topCard \<Rightarrow>
                 (case cardAt (open g) (index srcPile) 0 of
                    Inl e \<Rightarrow> Inl e
                  | Inr c \<Rightarrow>
                      if csuit topCard = csuit c \<and> cvalue topCard = cvalue c - 1 then Inr (int i)
                      else scanOpen g srcPile rest)))"

definition getValidFoundation :: "game \<Rightarrow> pile_ref \<Rightarrow> error + int" where
  "getValidFoundation g srcPile =
     (if type srcPile = ''cascade'' then scanCascade g srcPile [0, 1, 2, 3]
      else if type srcPile = ''open'' then scanOpen g srcPile [0, 1, 2, 3]
      else Inr (- 1))"

text \<open>
  The test that both branches of \<^verbatim>\<open>getValidFoundation\<close> make on one foundation pile
  before they return its index: the pile is empty and the card's value is 1, or the pile's
  last entry is a card of the card's suit and of the value one below.
\<close>

definition foundationTakes :: "pile \<Rightarrow> card \<Rightarrow> bool" where
  "foundationTakes f c =
     (if length f = 0 then cvalue c = 1
      else
        (case slot f (int (length f) - 1) of
           None \<Rightarrow> False
         | Some topCard \<Rightarrow> csuit topCard = csuit c \<and> cvalue topCard = cvalue c - 1))"

text \<open>The loop of \<^verbatim>\<open>isBuild\<close> on the pile, from index \<open>i\<close>.\<close>

function buildFrom :: "pile \<Rightarrow> int \<Rightarrow> bool" where
  "buildFrom p i =
     (if i < int (length p) then
        (if i = int (length p) - 1 then True
         else if \<not> isStackable (slot p i) (slot p (i + 1)) then False
         else buildFrom p (i + 1))
      else True)"
  by pat_completeness auto
termination
  by (relation "measure (\<lambda>(p, i). nat (int (length p) - i))") auto

definition isBuild :: "game \<Rightarrow> int \<Rightarrow> int \<Rightarrow> error + bool" where
  "isBuild g pileIdx cardIdx =
     (case elem (cascade g) pileIdx of
        None \<Rightarrow> Inl TypeError
      | Some p \<Rightarrow> Inr (buildFrom p cardIdx))"

text \<open>
  \<^verbatim>\<open>_numCanMove\<close>. \<^verbatim>\<open>reduce\<close> folds from the left; \<^verbatim>\<open>Math.pow(2, n)\<close> is the power
  with an integer exponent, a fraction if the exponent were negative.
\<close>

definition countEmpty :: "pile list \<Rightarrow> int" where
  "countEmpty ps = fold (\<lambda>c sum. if length c = 0 then sum + 1 else sum) ps 0"

definition numCanMove :: "game \<Rightarrow> int \<Rightarrow> error + rat" where
  "numCanMove g destPileIndex =
     (let numOpen = countEmpty (open g);
          numEmptyCascade = countEmpty (cascade g)
      in case elem (cascade g) destPileIndex of
           None \<Rightarrow> Inl TypeError
         | Some d \<Rightarrow>
             Inr (of_int (numOpen + 1) *
                  power_int 2 (if length d = 0 then numEmptyCascade - 1 else numEmptyCascade)))"

section \<open>Move validity\<close>

definition isValidMove :: "game \<Rightarrow> pile_ref option \<Rightarrow> pile_ref option \<Rightarrow> error + bool" where
  "isValidMove g src dest =
     (case (src, dest) of
        (None, _) \<Rightarrow> Inr False
      | (_, None) \<Rightarrow> Inr False
      | (Some srcPile, Some destPile) \<Rightarrow>
          if (type srcPile = type destPile \<and> index srcPile = index destPile)
             \<or> type srcPile = ''foundation''
          then Inr False
          else if type srcPile = ''cascade'' then
            (if type destPile = ''open'' then
               (if getFirstAvailableOpen g = - 1 then Inr False
                else
                  (case elem (cascade g) (index srcPile) of
                     None \<Rightarrow> Inl TypeError
                   | Some ps \<Rightarrow>
                       if cardIndex srcPile \<noteq> int (length ps) - 1 then Inr False
                       else
                         (case elem (open g) (index destPile) of
                            None \<Rightarrow> Inr True
                          | Some od \<Rightarrow> if length od \<noteq> 0 then Inr False else Inr True)))
             else if type destPile = ''cascade'' then
               (case elem (cascade g) (index destPile) of
                  None \<Rightarrow> Inl TypeError
                | Some pd \<Rightarrow>
                    if length pd = 0 then Inr True
                    else
                      (case elem (cascade g) (index srcPile) of
                         None \<Rightarrow> Inl TypeError
                       | Some ps \<Rightarrow>
                           (case numCanMove g (index destPile) of
                              Inl e \<Rightarrow> Inl e
                            | Inr n \<Rightarrow>
                                if of_int (int (length ps) - cardIndex srcPile) > n then Inr False
                                else
                                  (case isBuild g (index srcPile) (cardIndex srcPile) of
                                     Inl e \<Rightarrow> Inl e
                                   | Inr b \<Rightarrow>
                                       if \<not> b then Inr False
                                       else if \<not> isStackable (slot pd (int (length pd) - 1))
                                                   (slot ps (cardIndex srcPile))
                                       then Inr False
                                       else Inr True))))
             else if type destPile = ''foundation'' then
               (case getValidFoundation g srcPile of
                  Inl e \<Rightarrow> Inl e
                | Inr v \<Rightarrow> if v = - 1 then Inr False else Inr True)
             else Inr True)
          else if type srcPile = ''open'' then
            (if type destPile = ''cascade'' then
               (case elem (cascade g) (index destPile) of
                  None \<Rightarrow> Inl TypeError
                | Some pd \<Rightarrow>
                    if length pd = 0 then Inr True
                    else
                      (case elem (open g) (index srcPile) of
                         None \<Rightarrow> Inl TypeError
                       | Some po \<Rightarrow>
                           if \<not> isStackable (slot pd (int (length pd) - 1)) (slot po 0)
                           then Inr False
                           else Inr True))
             else if type destPile = ''open'' then
               (case elem (open g) (index destPile) of
                  None \<Rightarrow> Inl TypeError
                | Some od \<Rightarrow> if length od \<noteq> 0 then Inr False else Inr True)
             else if type destPile = ''foundation'' then
               (case getValidFoundation g srcPile of
                  Inl e \<Rightarrow> Inl e
                | Inr v \<Rightarrow> if v = - 1 then Inr False else Inr True)
             else Inr True)
          else Inr True)"

section \<open>Moves\<close>

text \<open>
  A mutating method returns the state it leaves together with its outcome, a thrown
  error included: in a cascade to cascade move the source pile is already cut when the
  read of a missing destination pile throws. In \<^verbatim>\<open>dest.push(src.pop())\<close> the
  destination's \<^verbatim>\<open>push\<close> is looked up before the source is popped, so nothing has
  changed when either pile is missing. The piles of one kind are distinct arrays; a push
  onto the pile just popped sees the pop.
\<close>

definition executeMove :: "game \<Rightarrow> pile_ref \<Rightarrow> pile_ref \<Rightarrow> (error + unit) \<times> game" where
  "executeMove g srcPile destPile =
     (if type srcPile = ''cascade'' then
        (if type destPile = ''open'' then
           (case elem (open g) (index destPile) of
              None \<Rightarrow> (Inl TypeError, g)
            | Some od \<Rightarrow>
                (case elem (cascade g) (index srcPile) of
                   None \<Rightarrow> (Inl TypeError, g)
                 | Some ps \<Rightarrow>
                     (Inr (),
                      g\<lparr> cascade := (cascade g)[nat (index srcPile) := snd (pop ps)],
                         open := (open g)[nat (index destPile) := od @ [fst (pop ps)]] \<rparr>)))
         else if type destPile = ''cascade'' then
           (case elem (cascade g) (index srcPile) of
              None \<Rightarrow> (Inl TypeError, g)
            | Some ps \<Rightarrow>
                (let tempVar = sliceFrom ps (cardIndex srcPile);
                     cut = (cascade g)[nat (index srcPile) := sliceTo ps (cardIndex srcPile)]
                 in case elem cut (index destPile) of
                      None \<Rightarrow> (Inl TypeError, g\<lparr> cascade := cut \<rparr>)
                    | Some pd \<Rightarrow>
                        (Inr (), g\<lparr> cascade := cut[nat (index destPile) := pd @ tempVar] \<rparr>)))
         else if type destPile = ''foundation'' then
           (case elem (foundation g) (index destPile) of
              None \<Rightarrow> (Inl TypeError, g)
            | Some fd \<Rightarrow>
                (case elem (cascade g) (index srcPile) of
                   None \<Rightarrow> (Inl TypeError, g)
                 | Some ps \<Rightarrow>
                     (Inr (),
                      g\<lparr> cascade := (cascade g)[nat (index srcPile) := snd (pop ps)],
                         foundation :=
                           (foundation g)[nat (index destPile) := fd @ [fst (pop ps)]] \<rparr>)))
         else (Inr (), g))
      else if type srcPile = ''open'' then
        (if type destPile = ''open'' then
           (case elem (open g) (index destPile) of
              None \<Rightarrow> (Inl TypeError, g)
            | Some od \<Rightarrow>
                (case elem (open g) (index srcPile) of
                   None \<Rightarrow> (Inl TypeError, g)
                 | Some ps \<Rightarrow>
                     (let popped = (open g)[nat (index srcPile) := snd (pop ps)]
                      in (Inr (),
                          g\<lparr> open :=
                               popped[nat (index destPile) :=
                                        popped ! nat (index destPile) @ [fst (pop ps)]] \<rparr>))))
         else if type destPile = ''cascade'' then
           (case elem (cascade g) (index destPile) of
              None \<Rightarrow> (Inl TypeError, g)
            | Some cd \<Rightarrow>
                (case elem (open g) (index srcPile) of
                   None \<Rightarrow> (Inl TypeError, g)
                 | Some ps \<Rightarrow>
                     (Inr (),
                      g\<lparr> open := (open g)[nat (index srcPile) := snd (pop ps)],
                         cascade := (cascade g)[nat (index destPile) := cd @ [fst (pop ps)]] \<rparr>)))
         else if type destPile = ''foundation'' then
           (case elem (foundation g) (index destPile) of
              None \<Rightarrow> (Inl TypeError, g)
            | Some fd \<Rightarrow>
                (case elem (open g) (index srcPile) of
                   None \<Rightarrow> (Inl TypeError, g)
                 | Some ps \<Rightarrow>
                     (Inr (),
                      g\<lparr> open := (open g)[nat (index srcPile) := snd (pop ps)],
                         foundation :=
                           (foundation g)[nat (index destPile) := fd @ [fst (pop ps)]] \<rparr>)))
         else (Inr (), g))
      else (Inr (), g))"

text \<open>\<^verbatim>\<open>this.executeMove(...); return true;\<close>: a throw of the call passes through.\<close>

definition thenReturn :: "(error + unit) \<times> game \<Rightarrow> bool \<Rightarrow> (error + bool) \<times> game" where
  "thenReturn r b = (case fst r of Inl e \<Rightarrow> (Inl e, snd r) | Inr _ \<Rightarrow> (Inr b, snd r))"

text \<open>
  The destinations built by \<^verbatim>\<open>attemptAutoMove\<close> have no \<^verbatim>\<open>cardIndex\<close>; the model
  gives them 0.
\<close>

definition attemptAutoMove :: "game \<Rightarrow> pile_ref \<Rightarrow> (error + bool) \<times> game" where
  "attemptAutoMove g srcPile =
     (if type srcPile = ''cascade'' then
        (case getValidFoundation g srcPile of
           Inl e \<Rightarrow> (Inl e, g)
         | Inr v \<Rightarrow>
             if v \<noteq> - 1 then
               thenReturn
                 (executeMove g srcPile \<lparr> type = ''foundation'', index = v, cardIndex = 0 \<rparr>)
                 True
             else if getFirstAvailableOpen g \<noteq> - 1 then
               thenReturn
                 (executeMove g srcPile
                    \<lparr> type = ''open'', index = getFirstAvailableOpen g, cardIndex = 0 \<rparr>)
                 True
             else (Inr False, g))
      else if type srcPile = ''open'' then
        (case getValidFoundation g srcPile of
           Inl e \<Rightarrow> (Inl e, g)
         | Inr v \<Rightarrow>
             if v \<noteq> - 1 then
               thenReturn
                 (executeMove g srcPile \<lparr> type = ''foundation'', index = v, cardIndex = 0 \<rparr>)
                 True
             else (Inr False, g))
      else (Inr False, g))"

section \<open>Calls on a game object\<close>





section \<open>The cards of a state\<close>

definition allCards :: "game \<Rightarrow> card option multiset" where
  "allCards g = mset (concat (foundation g)) + mset (concat (open g)) + mset (concat (cascade g))"

definition fullDeck :: "card option multiset" where
  "fullDeck = mset (map Some orderedDeck)"

text \<open>The pile that a source reference of kind cascade or open names, if there is one.\<close>

definition sourcePile :: "game \<Rightarrow> pile_ref \<Rightarrow> pile option" where
  "sourcePile g srcPile =
     (if type srcPile = ''cascade'' then elem (cascade g) (index srcPile)
      else if type srcPile = ''open'' then elem (open g) (index srcPile)
      else None)"

section \<open>States used as examples\<close>

text \<open>The deal of an unshuffled deck over 8 cascade piles, with 4 open piles.\<close>

definition dealtGame :: game where
  "dealtGame =
     (case FreecellGame noShuffle (Num 4) (Num 8) of
        Inr g \<Rightarrow> g
      | Inl e \<Rightarrow> \<lparr> foundation = [], open = [], cascade = [] \<rparr>)"

text \<open>
  The ace of spades, on top of cascade pile 0 of \<open>dealtGame\<close>, moved to foundation
  pile 1: a move that \<open>isValidMove\<close> accepts, since it asks only whether some foundation
  pile takes the card.
\<close>

definition aceOnSecond :: game where
  "aceOnSecond =
     snd (executeMove dealtGame \<lparr> type = ''cascade'', index = 0, cardIndex = 6 \<rparr>
            \<lparr> type = ''foundation'', index = 1, cardIndex = 0 \<rparr>)"

text \<open>Then the two of spades, on top of cascade pile 4, moved to open pile 0.\<close>

definition twoInCell :: game where
  "twoInCell =
     snd (executeMove aceOnSecond \<lparr> type = ''cascade'', index = 4, cardIndex = 5 \<rparr>
            \<lparr> type = ''open'', index = 0, cardIndex = 0 \<rparr>)"

text \<open>The deal of an unshuffled deck over 52 cascade piles, one card each, with 2 open piles.\<close>

definition spreadGame :: game where
  "spreadGame =
     (case FreecellGame noShuffle (Num 2) (Num 52) of
        Inr g \<Rightarrow> g
      | Inl e \<Rightarrow> \<lparr> foundation = [], open = [], cascade = [] \<rparr>)"

text \<open>Then the queen of hearts, from cascade pile 7, put on the king of spades on pile 0.\<close>

definition queenOnKing :: game where
  "queenOnKing =
     snd (executeMove spreadGame \<lparr> type = ''cascade'', index = 7, cardIndex = 0 \<rparr>
            \<lparr> type = ''cascade'', index = 0, cardIndex = 0 \<rparr>)"

text \<open>The ace of hearts of \<open>spreadGame\<close>, moved from cascade pile 51 to open pile 0.\<close>

definition aceInCell :: game where
  "aceInCell =
     snd (executeMove spreadGame \<lparr> type = ''cascade'', index = 51, cardIndex = 0 \<rparr>
            \<lparr> type = ''open'', index = 0, cardIndex = 0 \<rparr>)"


section \<open>Reachable states\<close>

text \<open>
  The states of a game object: as constructed, with any draws of the shuffle, and after
  each call of \<open>executeMove\<close> on a move that \<open>isValidMove\<close> accepts and whose source
  pile is not empty, or of \<open>attemptAutoMove\<close>.
\<close>

inductive reachable :: "game \<Rightarrow> bool" where
  constructed:
    "(\<forall>i. rnd i \<le> i) \<Longrightarrow> FreecellGame rnd numOpen numCascade = Inr g \<Longrightarrow> reachable g"
| moved:
    "reachable g \<Longrightarrow> isValidMove g (Some s) (Some d) = Inr True \<Longrightarrow>
     sourcePile g s \<noteq> Some [] \<Longrightarrow> reachable (snd (executeMove g s d))"
| autoMoved:
    "reachable g \<Longrightarrow> reachable (snd (attemptAutoMove g s))"

section \<open>Arrays, piles and counting\<close>

lemma elem_SomeD: "elem xs i = Some p \<Longrightarrow> 0 \<le> i \<and> nat i < length xs \<and> xs ! nat i = p"
  by (auto simp: elem_def split: if_splits)

lemma elem_update_same: "elem xs i = Some p \<Longrightarrow> elem (xs[nat i := q]) i = Some q"
  by (auto simp: elem_def split: if_splits)

lemma elem_update_other: "i \<noteq> j \<Longrightarrow> 0 \<le> j \<Longrightarrow> elem (xs[nat j := q]) i = elem xs i"
  by (auto simp: elem_def)

lemma slot_last: "pd \<noteq> [] \<Longrightarrow> slot pd (int (length pd) - 1) = last pd"
  by (simp add: slot_def elem_def last_conv_nth nat_diff_distrib')

lemma mset_concat_update:
  "i < length ps \<Longrightarrow> mset (concat (ps[i := q])) + mset (ps ! i) = mset (concat ps) + mset q"
proof (induction ps arbitrary: i)
  case Nil
  then show ?case by simp
next
  case (Cons p ps)
  show ?case
  proof (cases i)
    case 0
    then show ?thesis by simp
  next
    case (Suc k)
    with Cons.prems have "k < length ps" by simp
    from Cons.IH [OF this] Suc show ?thesis by (simp add: ac_simps)
  qed
qed

lemma mset_pop: "p \<noteq> [] \<Longrightarrow> mset (snd (pop p)) + {#fst (pop p)#} = mset p"
  by (cases p rule: rev_cases) (simp_all add: pop_def)

lemma slice_split: "sliceTo xs k @ sliceFrom xs k = xs"
  by (simp add: sliceTo_def sliceFrom_def)

lemma countEmpty_fold:
  "fold (\<lambda>c sum. if length c = 0 then sum + 1 else sum) ps a =
     a + int (length (filter (\<lambda>p. p = []) ps))"
  by (induction ps arbitrary: a) auto

lemma countEmpty_filter: "countEmpty ps = int (length (filter (\<lambda>p. p = []) ps))"
  unfolding countEmpty_def using countEmpty_fold [of ps 0] by simp

lemma countEmpty_card: "countEmpty ps = int (card {i. i < length ps \<and> ps ! i = []})"
  by (simp add: countEmpty_filter length_filter_conv_card)

lemma filter_upt_card: "length (filter P [0..<n]) = card {i. i < n \<and> P i}"
proof -
  have "{i. i < length [0..<n] \<and> P ([0..<n] ! i)} = {i. i < n \<and> P i}" by auto
  then show ?thesis by (simp add: length_filter_conv_card)
qed

text \<open>
  The exponent of \<open>numCanMove\<close> is never negative: an empty destination pile is one of
  the empty piles counted.
\<close>

lemma numCanMove_value:
  assumes "elem (cascade g) d = Some pd"
  shows "numCanMove g d =
           Inr (of_nat ((card {i. i < length (open g) \<and> open g ! i = []} + 1) *
                   2 ^ card {i. i < length (cascade g) \<and> i \<noteq> nat d \<and> cascade g ! i = []}))"
proof -
  let ?E = "{i. i < length (cascade g) \<and> cascade g ! i = []}"
  let ?E' = "{i. i < length (cascade g) \<and> i \<noteq> nat d \<and> cascade g ! i = []}"
  have d: "nat d < length (cascade g)" "cascade g ! nat d = pd"
    using assms by (auto simp: elem_def split: if_splits)
  have fin: "finite ?E" by simp
  have E': "?E' = ?E - {nat d}" by auto
  show ?thesis
  proof (cases "pd = []")
    case True
    then have mem: "nat d \<in> ?E" using d by simp
    then have pos: "0 < card ?E" using fin card_gt_0_iff by blast
    have "card ?E' = card ?E - 1" unfolding E' using mem fin by simp
    moreover have "power_int (2::rat) (int (card ?E) - 1) = 2 ^ (card ?E - 1)"
      using pos by (simp add: power_int_def nat_diff_distrib')
    ultimately show ?thesis
      using assms True by (simp add: numCanMove_def countEmpty_card algebra_simps)
  next
    case False
    then have "?E' = ?E" using d by auto
    then show ?thesis
      using assms False by (simp add: numCanMove_def countEmpty_card algebra_simps)
  qed
qed

lemma numCanMove_filter:
  assumes "elem (cascade g) d = Some pd"
  shows "numCanMove g d =
           Inr (of_nat ((length (filter (\<lambda>p. p = []) (open g)) + 1) *
                   2 ^ length (filter (\<lambda>i. i \<noteq> nat d \<and> cascade g ! i = [])
                                 [0..<length (cascade g)])))"
proof -
  have a: "length (filter (\<lambda>p. p = []) (open g)) = card {i. i < length (open g) \<and> open g ! i = []}"
    by (rule length_filter_conv_card)
  have b: "length (filter (\<lambda>i. i \<noteq> nat d \<and> cascade g ! i = []) [0..<length (cascade g)]) =
             card {i. i < length (cascade g) \<and> i \<noteq> nat d \<and> cascade g ! i = []}"
    by (rule filter_upt_card)
  show ?thesis unfolding a b by (rule numCanMove_value [OF assms])
qed

section \<open>Shuffling and dealing\<close>

lemma swap_mset: "i < length xs \<Longrightarrow> j < length xs \<Longrightarrow> mset (swap xs i j) = mset xs"
  unfolding swap_def by (metis mset_swap)

lemma swap_length: "length (swap xs i j) = length xs"
  by (simp add: swap_def)

lemma shuffleFrom_mset:
  "(\<And>i. rnd i \<le> i) \<Longrightarrow> k < length xs \<Longrightarrow> mset (shuffleFrom rnd k xs) = mset xs"
proof (induction k arbitrary: xs)
  case 0
  then show ?case by simp
next
  case (Suc k)
  have j: "rnd (Suc k) < length xs"
    using Suc.prems(1) [of "Suc k"] Suc.prems(2) by simp
  have "mset (shuffleFrom rnd k (swap xs (Suc k) (rnd (Suc k)))) =
          mset (swap xs (Suc k) (rnd (Suc k)))"
    using Suc.prems by (intro Suc.IH) (simp_all add: swap_length)
  with j Suc.prems(2) show ?case by (simp add: swap_mset)
qed

lemma shuffle_mset: "(\<And>i. rnd i \<le> i) \<Longrightarrow> mset (shuffle rnd xs) = mset xs"
  by (cases "xs = []") (simp_all add: shuffle_def shuffleFrom_mset)

lemma deal_length: "length (deal cs i n ps) = length ps"
  by (induction cs arbitrary: i ps) simp_all

lemma deal_mset:
  "0 < n \<Longrightarrow> length ps = n \<Longrightarrow>
   mset (concat (deal cs i n ps)) = mset (map Some cs) + mset (concat ps)"
proof (induction cs arbitrary: i ps)
  case Nil
  then show ?case by simp
next
  case (Cons c cs)
  let ?k = "i mod n"
  let ?ps = "ps[?k := ps ! ?k @ [Some c]]"
  have k: "?k < length ps" using Cons.prems by simp
  have "mset (concat ?ps) + mset (ps ! ?k) = mset (concat ps) + mset (ps ! ?k @ [Some c])"
    by (rule mset_concat_update [OF k])
  then have step: "mset (concat ?ps) = mset (concat ps) + {#Some c#}" by simp
  have "mset (concat (deal cs (i + 1) n ?ps)) = mset (map Some cs) + mset (concat ?ps)"
    using Cons.prems by (intro Cons.IH) simp_all
  with step show ?case by simp
qed

section \<open>Moves keep the cards\<close>

lemma pop_pile:
  "i < length A \<Longrightarrow> A ! i \<noteq> [] \<Longrightarrow>
   mset (concat (A[i := snd (pop (A ! i))])) + {#fst (pop (A ! i))#} = mset (concat A)"
proof -
  assume i: "i < length A" and ne: "A ! i \<noteq> []"
  have "mset (concat (A[i := snd (pop (A ! i))])) + mset (A ! i) =
          mset (concat A) + mset (snd (pop (A ! i)))"
    by (rule mset_concat_update [OF i])
  moreover have "mset (A ! i) = mset (snd (pop (A ! i))) + {#fst (pop (A ! i))#}"
    using mset_pop [OF ne] by simp
  ultimately show ?thesis by simp
qed

lemma push_many:
  "j < length B \<Longrightarrow> mset (concat (B[j := B ! j @ ys])) = mset (concat B) + mset ys"
  using mset_concat_update [of j B "B ! j @ ys"] by simp

lemma executeMove_throw_same:
  assumes "fst (executeMove g s d) \<noteq> Inr ()"
    and "\<not> (type s = ''cascade'' \<and> type d = ''cascade'')"
  shows "snd (executeMove g s d) = g"
  using assms by (simp add: executeMove_def Let_def split: if_splits option.splits)

lemma move_between:
  assumes "i < length A" and "A ! i \<noteq> []" and "j < length B"
  shows "mset (concat (A[i := snd (pop (A ! i))])) +
         mset (concat (B[j := B ! j @ [fst (pop (A ! i))]])) = mset (concat A) + mset (concat B)"
  using pop_pile [OF assms(1,2)] push_many [OF assms(3), of "[fst (pop (A ! i))]"]
  by (simp add: ac_simps)

lemma move_within:
  assumes "i < length A" and "A ! i \<noteq> []" and "j < length A"
  shows "mset (concat ((A[i := snd (pop (A ! i))])
            [j := (A[i := snd (pop (A ! i))]) ! j @ [fst (pop (A ! i))]])) = mset (concat A)"
proof -
  let ?P = "A[i := snd (pop (A ! i))]"
  have "j < length ?P" using assms(3) by simp
  from push_many [OF this, of "[fst (pop (A ! i))]"] pop_pile [OF assms(1,2)]
  show ?thesis by simp
qed

lemma cut_and_append:
  assumes "i < length C" and "j < length C"
  shows "mset (concat ((C[i := sliceTo (C ! i) k])
            [j := (C[i := sliceTo (C ! i) k]) ! j @ sliceFrom (C ! i) k])) = mset (concat C)"
proof -
  let ?cut = "C[i := sliceTo (C ! i) k]"
  have j: "j < length ?cut" using assms(2) by simp
  have a: "mset (concat ?cut) + mset (C ! i) = mset (concat C) + mset (sliceTo (C ! i) k)"
    by (rule mset_concat_update [OF assms(1)])
  have "mset (C ! i) = mset (sliceTo (C ! i) k) + mset (sliceFrom (C ! i) k)"
    using slice_split [of "C ! i" k] by (metis mset_append)
  with a have "mset (concat ?cut) + mset (sliceFrom (C ! i) k) = mset (concat C)"
    by (simp add: ac_simps)
  with push_many [OF j, of "sliceFrom (C ! i) k"] show ?thesis by simp
qed

lemma executeMove_done_allCards:
  assumes "fst (executeMove g s d) = Inr ()" and "sourcePile g s \<noteq> Some []"
  shows "allCards (snd (executeMove g s d)) = allCards g"
proof -
  consider (co) "type s = ''cascade''" "type d = ''open''"
    | (cc) "type s = ''cascade''" "type d = ''cascade''"
    | (cf) "type s = ''cascade''" "type d = ''foundation''"
    | (oo) "type s = ''open''" "type d = ''open''"
    | (oc) "type s = ''open''" "type d = ''cascade''"
    | (of) "type s = ''open''" "type d = ''foundation''"
    | (none) "\<not> (type s = ''cascade'' \<and> type d \<in> {''open'', ''cascade'', ''foundation''})"
             "\<not> (type s = ''open'' \<and> type d \<in> {''open'', ''cascade'', ''foundation''})"
    by auto
  then show ?thesis
  proof cases
    case co
    from assms co obtain od ps where
      e: "elem (open g) (index d) = Some od" "elem (cascade g) (index s) = Some ps"
      by (auto simp: executeMove_def split: option.splits)
    from e have d: "nat (index d) < length (open g)" "open g ! nat (index d) = od"
      and s: "nat (index s) < length (cascade g)" "cascade g ! nat (index s) = ps"
      by (auto dest: elem_SomeD)
    from assms(2) co e have ne: "cascade g ! nat (index s) \<noteq> []"
      using s by (simp add: sourcePile_def)
    from move_between [OF s(1) ne d(1)] co e s d show ?thesis
      by (simp add: executeMove_def allCards_def ac_simps)
  next
    case cc
    from assms cc obtain ps where e: "elem (cascade g) (index s) = Some ps"
      by (auto simp: executeMove_def split: option.splits)
    from e have s: "nat (index s) < length (cascade g)" "cascade g ! nat (index s) = ps"
      by (auto dest: elem_SomeD)
    let ?cut = "(cascade g)[nat (index s) := sliceTo ps (cardIndex s)]"
    from assms cc e obtain pd where p: "elem ?cut (index d) = Some pd"
      by (auto simp: executeMove_def Let_def split: option.splits)
    then have d: "nat (index d) < length (cascade g)" "?cut ! nat (index d) = pd"
      by (auto dest: elem_SomeD)
    from cut_and_append [OF s(1) d(1), of "cardIndex s"] cc e p s d show ?thesis
      by (simp add: executeMove_def allCards_def Let_def)
  next
    case cf
    from assms cf obtain fd ps where
      e: "elem (foundation g) (index d) = Some fd" "elem (cascade g) (index s) = Some ps"
      by (auto simp: executeMove_def split: option.splits)
    from e have d: "nat (index d) < length (foundation g)" "foundation g ! nat (index d) = fd"
      and s: "nat (index s) < length (cascade g)" "cascade g ! nat (index s) = ps"
      by (auto dest: elem_SomeD)
    from assms(2) cf e have ne: "cascade g ! nat (index s) \<noteq> []"
      using s by (simp add: sourcePile_def)
    from move_between [OF s(1) ne d(1)] cf e s d show ?thesis
      by (simp add: executeMove_def allCards_def ac_simps)
  next
    case oo
    from assms oo obtain od ps where
      e: "elem (open g) (index d) = Some od" "elem (open g) (index s) = Some ps"
      by (auto simp: executeMove_def split: option.splits)
    from e have d: "nat (index d) < length (open g)"
      and s: "nat (index s) < length (open g)" "open g ! nat (index s) = ps"
      by (auto dest: elem_SomeD)
    from assms(2) oo e have ne: "open g ! nat (index s) \<noteq> []"
      using s by (simp add: sourcePile_def)
    from move_within [OF s(1) ne d(1)] oo e s show ?thesis
      by (simp add: executeMove_def allCards_def Let_def)
  next
    case oc
    from assms oc obtain cd ps where
      e: "elem (cascade g) (index d) = Some cd" "elem (open g) (index s) = Some ps"
      by (auto simp: executeMove_def split: option.splits)
    from e have d: "nat (index d) < length (cascade g)" "cascade g ! nat (index d) = cd"
      and s: "nat (index s) < length (open g)" "open g ! nat (index s) = ps"
      by (auto dest: elem_SomeD)
    from assms(2) oc e have ne: "open g ! nat (index s) \<noteq> []"
      using s by (simp add: sourcePile_def)
    from move_between [OF s(1) ne d(1)] oc e s d show ?thesis
      by (simp add: executeMove_def allCards_def ac_simps)
  next
    case "of"
    from assms "of" obtain fd ps where
      e: "elem (foundation g) (index d) = Some fd" "elem (open g) (index s) = Some ps"
      by (auto simp: executeMove_def split: option.splits)
    from e have d: "nat (index d) < length (foundation g)" "foundation g ! nat (index d) = fd"
      and s: "nat (index s) < length (open g)" "open g ! nat (index s) = ps"
      by (auto dest: elem_SomeD)
    from assms(2) "of" e have ne: "open g ! nat (index s) \<noteq> []"
      using s by (simp add: sourcePile_def)
    from move_between [OF s(1) ne d(1)] "of" e s d show ?thesis
      by (simp add: executeMove_def allCards_def ac_simps)
  next
    case none
    then have "executeMove g s d = (Inr (), g)"
      by (auto simp: executeMove_def)
    then show ?thesis by simp
  qed
qed

section \<open>What the lookups report\<close>

lemma scanCascade_found:
  "scanCascade g s is = Inr v \<Longrightarrow> v \<noteq> - 1 \<Longrightarrow> \<exists>f. elem (foundation g) v = Some f"
  by (induction "is") (auto split: option.splits if_splits sum.splits)

lemma scanOpen_found:
  "scanOpen g s is = Inr v \<Longrightarrow> v \<noteq> - 1 \<Longrightarrow> \<exists>f. elem (foundation g) v = Some f"
  by (induction "is") (auto split: option.splits if_splits sum.splits)

lemma scanCascade_reads_card:
  "scanCascade g s (i # is) = Inr v \<Longrightarrow> \<exists>c. cardAt (cascade g) (index s) (cardIndex s) = Inr c"
  by (auto split: option.splits if_splits sum.splits)

lemma scanOpen_reads_card:
  "scanOpen g s (i # is) = Inr v \<Longrightarrow> \<exists>c. cardAt (open g) (index s) 0 = Inr c"
  by (auto split: option.splits if_splits sum.splits)

lemma cardAt_pile: "cardAt piles i j = Inr c \<Longrightarrow> \<exists>p. elem piles i = Some p \<and> p \<noteq> []"
  by (auto simp: cardAt_def slot_def elem_def split: option.splits if_splits)

lemma getValidFoundation_source:
  assumes "getValidFoundation g s = Inr v" and "type s = ''cascade'' \<or> type s = ''open''"
  shows "\<exists>p. sourcePile g s = Some p \<and> p \<noteq> []"
proof (cases "type s = ''cascade''")
  case True
  with assms have "scanCascade g s [0, 1, 2, 3] = Inr v" by (simp add: getValidFoundation_def)
  from scanCascade_reads_card [OF this] cardAt_pile True show ?thesis
    by (fastforce simp: sourcePile_def)
next
  case False
  with assms have o: "type s = ''open''" by simp
  with assms have "scanOpen g s [0, 1, 2, 3] = Inr v" by (simp add: getValidFoundation_def)
  from scanOpen_reads_card [OF this] cardAt_pile o show ?thesis
    by (fastforce simp: sourcePile_def)
qed

lemma getValidFoundation_found:
  assumes "getValidFoundation g s = Inr v" and "v \<noteq> - 1"
  shows "\<exists>f. elem (foundation g) v = Some f"
proof -
  from assms consider "scanCascade g s [0, 1, 2, 3] = Inr v" | "scanOpen g s [0, 1, 2, 3] = Inr v"
    unfolding getValidFoundation_def by (cases "type s = ''cascade''"; cases "type s = ''open''") simp_all
  then show ?thesis
    using assms(2) by cases (rule scanCascade_found, assumption+, rule scanOpen_found, assumption+)
qed

lemma firstEmptyFrom_found:
  "firstEmptyFrom ps i = v \<Longrightarrow> v \<noteq> - 1 \<Longrightarrow> 0 \<le> i \<Longrightarrow>
   i \<le> v \<and> nat (v - i) < length ps \<and> ps ! nat (v - i) = []"
proof (induction ps arbitrary: i)
  case Nil
  then show ?case by simp
next
  case (Cons p ps)
  show ?case
  proof (cases "p = []")
    case True
    with Cons.prems show ?thesis by simp
  next
    case False
    with Cons.prems have "firstEmptyFrom ps (i + 1) = v" by simp
    from Cons.IH [OF this] Cons.prems
    have "i + 1 \<le> v \<and> nat (v - (i + 1)) < length ps \<and> ps ! nat (v - (i + 1)) = []" by simp
    moreover from this have "nat (v - i) = Suc (nat (v - (i + 1)))" by linarith
    ultimately show ?thesis by simp
  qed
qed

lemma getFirstAvailableOpen_found:
  "getFirstAvailableOpen g \<noteq> - 1 \<Longrightarrow> elem (open g) (getFirstAvailableOpen g) = Some []"
proof -
  assume "getFirstAvailableOpen g \<noteq> - 1"
  with firstEmptyFrom_found [of "open g" 0 "getFirstAvailableOpen g"]
  have "0 \<le> getFirstAvailableOpen g" "nat (getFirstAvailableOpen g) < length (open g)"
    "open g ! nat (getFirstAvailableOpen g) = []"
    by (simp_all add: getFirstAvailableOpen_def)
  then show ?thesis unfolding elem_def by (simp add: nat_less_iff)
qed

section \<open>Automatic moves\<close>

text \<open>The moves that \<open>attemptAutoMove\<close> makes never throw.\<close>

lemma executeMove_to_foundation:
  assumes "type s = ''cascade'' \<or> type s = ''open''"
    and "sourcePile g s = Some p" and "elem (foundation g) v = Some f"
  shows "fst (executeMove g s \<lparr> type = ''foundation'', index = v, cardIndex = k \<rparr>) = Inr ()"
  using assms by (auto simp: executeMove_def sourcePile_def)

lemma executeMove_to_open:
  assumes "type s = ''cascade''"
    and "sourcePile g s = Some p" and "elem (open g) v = Some od"
  shows "fst (executeMove g s \<lparr> type = ''open'', index = v, cardIndex = k \<rparr>) = Inr ()"
  using assms by (auto simp: executeMove_def sourcePile_def)

lemma thenReturn_done: "fst r = Inr () \<Longrightarrow> thenReturn r b = (Inr b, snd r)"
  by (simp add: thenReturn_def)

lemma attemptAutoMove_cases:
  "(\<exists>e. attemptAutoMove g s = (Inl e, g) \<and> getValidFoundation g s = Inl e) \<or>
   attemptAutoMove g s = (Inr False, g) \<and> getValidFoundation g s = Inr (- 1) \<and>
     (type s = ''cascade'' \<longrightarrow> getFirstAvailableOpen g = - 1) \<or>
   (\<exists>d. (type s = ''cascade'' \<or> type s = ''open'') \<and>
        (type d = ''foundation'' \<and> getValidFoundation g s = Inr (index d) \<and> index d \<noteq> - 1 \<or>
         type s = ''cascade'' \<and> type d = ''open'' \<and> getValidFoundation g s = Inr (- 1) \<and>
           index d = getFirstAvailableOpen g \<and> index d \<noteq> - 1) \<and>
        (\<exists>p. sourcePile g s = Some p \<and> p \<noteq> []) \<and>
        executeMove g s d = (Inr (), snd (attemptAutoMove g s)) \<and>
        fst (attemptAutoMove g s) = Inr True)"
proof (cases "type s = ''cascade'' \<or> type s = ''open''")
  case False
  then show ?thesis by (simp add: attemptAutoMove_def getValidFoundation_def)
next
  case kind: True
  show ?thesis
  proof (cases "getValidFoundation g s")
    case (Inl e)
    with kind show ?thesis by (auto simp: attemptAutoMove_def)
  next
    case (Inr v)
    from getValidFoundation_source [OF Inr kind] obtain p
      where p: "sourcePile g s = Some p" "p \<noteq> []" by blast
    show ?thesis
    proof (cases "v = - 1")
      case False
      let ?d = "\<lparr> type = ''foundation'', index = v, cardIndex = 0 \<rparr>"
      from getValidFoundation_found [OF Inr False] obtain f
        where f: "elem (foundation g) v = Some f" by blast
      have ok: "fst (executeMove g s ?d) = Inr ()"
        by (rule executeMove_to_foundation [OF kind p(1) f])
      have "attemptAutoMove g s = (Inr True, snd (executeMove g s ?d))"
        using kind Inr False thenReturn_done [OF ok] by (auto simp: attemptAutoMove_def)
      with ok Inr False kind p have
        "(type s = ''cascade'' \<or> type s = ''open'') \<and>
         (type ?d = ''foundation'' \<and> getValidFoundation g s = Inr (index ?d) \<and> index ?d \<noteq> - 1 \<or>
          type s = ''cascade'' \<and> type ?d = ''open'' \<and> getValidFoundation g s = Inr (- 1) \<and>
           index ?d = getFirstAvailableOpen g \<and> index ?d \<noteq> - 1) \<and>
         (\<exists>p. sourcePile g s = Some p \<and> p \<noteq> []) \<and>
         executeMove g s ?d = (Inr (), snd (attemptAutoMove g s)) \<and>
         fst (attemptAutoMove g s) = Inr True"
        by (simp add: prod_eq_iff)
      then show ?thesis by blast
    next
      case True
      show ?thesis
      proof (cases "type s = ''cascade'' \<and> getFirstAvailableOpen g \<noteq> - 1")
        case False
        with kind Inr True show ?thesis by (auto simp: attemptAutoMove_def)
      next
        case av: True
        let ?d = "\<lparr> type = ''open'', index = getFirstAvailableOpen g, cardIndex = 0 \<rparr>"
        from av have e: "elem (open g) (getFirstAvailableOpen g) = Some []"
          by (simp add: getFirstAvailableOpen_found)
        have ok: "fst (executeMove g s ?d) = Inr ()"
          using av by (intro executeMove_to_open [OF _ p(1) e]) simp
        have "attemptAutoMove g s = (Inr True, snd (executeMove g s ?d))"
          using av Inr True thenReturn_done [OF ok] by (simp add: attemptAutoMove_def)
        with ok Inr True av p have
          "(type s = ''cascade'' \<or> type s = ''open'') \<and>
           (type ?d = ''foundation'' \<and> getValidFoundation g s = Inr (index ?d) \<and> index ?d \<noteq> - 1 \<or>
            type s = ''cascade'' \<and> type ?d = ''open'' \<and> getValidFoundation g s = Inr (- 1) \<and>
             index ?d = getFirstAvailableOpen g \<and> index ?d \<noteq> - 1) \<and>
           (\<exists>p. sourcePile g s = Some p \<and> p \<noteq> []) \<and>
           executeMove g s ?d = (Inr (), snd (attemptAutoMove g s)) \<and>
           fst (attemptAutoMove g s) = Inr True"
          by (simp add: prod_eq_iff)
        then show ?thesis by blast
      qed
    qed
  qed
qed

lemma attemptAutoMove_allCards: "allCards (snd (attemptAutoMove g s)) = allCards g"
proof -
  from attemptAutoMove_cases [of g s] consider
    (same) "snd (attemptAutoMove g s) = g"
    | (move) d p where "sourcePile g s = Some p" "p \<noteq> []"
        "executeMove g s d = (Inr (), snd (attemptAutoMove g s))"
    by (elim disjE exE conjE) simp_all
  then show ?thesis
  proof cases
    case same
    then show ?thesis by simp
  next
    case move
    from move(1,2) have "sourcePile g s \<noteq> Some []" by simp
    from executeMove_done_allCards [of g s d, OF _ this] move(3) show ?thesis by simp
  qed
qed

section \<open>The deck in every reachable state\<close>

lemma valid_cascade_move_target:
  assumes "isValidMove g (Some s) (Some d) = Inr True"
    and "type s = ''cascade''" and "type d = ''cascade''"
  shows "\<exists>pd. elem (cascade g) (index d) = Some pd \<and> index s \<noteq> index d"
  using assms by (auto simp: isValidMove_def split: option.splits if_splits)

lemma executeMove_valid_allCards:
  assumes "isValidMove g (Some s) (Some d) = Inr True" and "sourcePile g s \<noteq> Some []"
  shows "allCards (snd (executeMove g s d)) = allCards g"
proof (cases "fst (executeMove g s d) = Inr ()")
  case True
  then show ?thesis by (rule executeMove_done_allCards [OF _ assms(2)])
next
  case thrown: False
  show ?thesis
  proof (cases "type s = ''cascade'' \<and> type d = ''cascade''")
    case False
    with thrown have "snd (executeMove g s d) = g" by (rule executeMove_throw_same)
    then show ?thesis by simp
  next
    case True
    with assms(1) obtain pd where pd: "elem (cascade g) (index d) = Some pd"
      using valid_cascade_move_target by blast
    have len: "\<And>q. elem ((cascade g)[nat (index s) := q]) (index d) \<noteq> None"
      using pd by (auto simp: elem_def split: if_splits)
    have "snd (executeMove g s d) = g"
    proof (cases "elem (cascade g) (index s)")
      case None
      with True show ?thesis by (simp add: executeMove_def)
    next
      case (Some ps)
      from len [of "sliceTo ps (cardIndex s)"] obtain q
        where "elem ((cascade g)[nat (index s) := sliceTo ps (cardIndex s)]) (index d) = Some q"
        by blast
      with True Some have "fst (executeMove g s d) = Inr ()"
        by (simp add: executeMove_def Let_def)
      with thrown show ?thesis by simp
    qed
    then show ?thesis by simp
  qed
qed

lemma constructed_allCards:
  assumes "\<forall>i. rnd i \<le> i" and "FreecellGame rnd numOpen numCascade = Inr g"
  shows "allCards g = fullDeck"
proof -
  from assms(2) obtain no nc where
    p: "parseInt numOpen = Some no" "parseInt numCascade = Some nc"
    and r: "\<not> jsLess numCascade 1"
    and g: "g = \<lparr> foundation = replicate 4 [], open = replicate (nat no) [],
                 cascade = deal (getDeck rnd) 0 (nat nc) (replicate (nat nc) []) \<rparr>"
    by (auto simp: FreecellGame_def split: option.splits if_splits)
  from p(2) r have "1 \<le> nc" by (cases numCascade) (auto split: if_splits simp: le_floor_iff)
  then have pos: "0 < nat nc" by simp
  have c: "mset (concat (deal (getDeck rnd) 0 (nat nc) (replicate (nat nc) []))) =
           mset (map Some (getDeck rnd))"
    using deal_mset [OF pos, of "replicate (nat nc) []" "getDeck rnd" 0] by simp
  have "mset (getDeck rnd) = mset orderedDeck"
    unfolding getDeck_def using assms(1) by (intro shuffle_mset) simp
  then have "mset (map Some (getDeck rnd)) = fullDeck"
    unfolding fullDeck_def by (metis mset_map)
  with c g show ?thesis by (simp add: allCards_def)
qed

lemma reachable_allCards: "reachable g \<Longrightarrow> allCards g = fullDeck"
proof (induction rule: reachable.induct)
  case (constructed rnd numOpen numCascade g)
  then show ?case by (rule constructed_allCards)
next
  case (moved g s d)
  then show ?case by (simp add: executeMove_valid_allCards)
next
  case (autoMoved g s)
  then show ?case by (simp add: attemptAutoMove_allCards)
qed

lemma orderedDeck_distinct: "distinct orderedDeck"
  by code_simp

lemma orderedDeck_set: "Card v s \<in> set orderedDeck \<longleftrightarrow> 1 \<le> v \<and> v \<le> 13"
  by (cases s) (auto simp: orderedDeck_def suits_def)

lemma fullDeck_size: "size fullDeck = 52"
  unfolding fullDeck_def by code_simp

lemma fullDeck_count:
  "count fullDeck x = (case x of None \<Rightarrow> 0 | Some c \<Rightarrow> if 1 \<le> cvalue c \<and> cvalue c \<le> 13 then 1 else 0)"
proof (cases x)
  case None
  then show ?thesis by (auto simp: fullDeck_def count_eq_zero_iff)
next
  case (Some c)
  have d: "distinct (map Some orderedDeck)"
    using orderedDeck_distinct by (simp add: distinct_map)
  have "Some c \<in> set (map Some orderedDeck) \<longleftrightarrow> 1 \<le> cvalue c \<and> cvalue c \<le> 13"
    using orderedDeck_set [of "cvalue c" "csuit c"] by auto
  with d Some show ?thesis
    by (simp add: fullDeck_def distinct_count_atmost_1)
qed





text \<open>The open branch misses no pile: when it reports none, no foundation pile takes the card.\<close>

lemma scanOpen_complete:
  "scanOpen g s is = Inr (- 1) \<Longrightarrow> i \<in> set is \<Longrightarrow>
   \<exists>f c. elem (foundation g) (int i) = Some f \<and> cardAt (open g) (index s) 0 = Inr c \<and>
         \<not> (f = [] \<and> cvalue c = 1) \<and>
         \<not> (\<exists>t. f \<noteq> [] \<and> last f = Some t \<and> csuit t = csuit c \<and> cvalue t = cvalue c - 1)"
proof (induction "is")
  case Nil
  then show ?case by simp
next
  case (Cons j rest)
  from Cons.prems(1) obtain f c where f: "elem (foundation g) (int j) = Some f"
    and c: "cardAt (open g) (index s) 0 = Inr c"
    by (auto split: option.splits if_splits sum.splits)
  have here: "\<not> (f = [] \<and> cvalue c = 1) \<and>
         \<not> (\<exists>t. f \<noteq> [] \<and> last f = Some t \<and> csuit t = csuit c \<and> cvalue t = cvalue c - 1)"
    and rest: "scanOpen g s rest = Inr (- 1)"
    using Cons.prems(1) f c
    by (auto simp: slot_last split: option.splits if_splits)
  show ?case
  proof (cases "i = j")
    case True
    with f c here show ?thesis by blast
  next
    case False
    with Cons.prems(2) have "i \<in> set rest" by simp
    from Cons.IH [OF rest this] show ?thesis .
  qed
qed

lemma slice_in_range:
  "0 \<le> k \<Longrightarrow> k \<le> int (length xs) \<Longrightarrow>
   sliceTo xs k = take (nat k) xs \<and> sliceFrom xs k = drop (nat k) xs"
  by (simp add: sliceTo_def sliceFrom_def sliceIndex_def)

section \<open>Properties of the specification\<close>

text \<open>
  C1 (code defect). \<open>getValidFoundation\<close> is to return the first foundation pile that is
  empty while the card is an ace, or whose top card has the card's suit and the rank
  just below. In \<open>aceOnSecond\<close>, reached from a fresh deal by one move that
  \<open>isValidMove\<close> accepts, foundation pile 0 is empty and pile 1 holds the ace of spades.
  For the two of spades on cascade pile 4 the cascade branch stops at the empty pile 0 and
  returns -1. Once the same card has been moved to open pile 0, the open branch passes
  over pile 0 and returns 1.
\<close>

theorem getValidFoundation_cascade_stops_at_empty:
  "FreecellGame noShuffle (Num 4) (Num 8) = Inr dealtGame \<and>
   isValidMove dealtGame (Some \<lparr> type = ''cascade'', index = 0, cardIndex = 6 \<rparr>)
     (Some \<lparr> type = ''foundation'', index = 1, cardIndex = 0 \<rparr>) = Inr True \<and>
   executeMove dealtGame \<lparr> type = ''cascade'', index = 0, cardIndex = 6 \<rparr>
     \<lparr> type = ''foundation'', index = 1, cardIndex = 0 \<rparr> = (Inr (), aceOnSecond) \<and>
   foundation aceOnSecond = [[], [Some (Card 1 spades)], [], []] \<and>
   cardAt (cascade aceOnSecond) 4 5 = Inr (Card 2 spades) \<and>
   getValidFoundation aceOnSecond \<lparr> type = ''cascade'', index = 4, cardIndex = 5 \<rparr> = Inr (- 1) \<and>
   isValidMove aceOnSecond (Some \<lparr> type = ''cascade'', index = 4, cardIndex = 5 \<rparr>)
     (Some \<lparr> type = ''open'', index = 0, cardIndex = 0 \<rparr>) = Inr True \<and>
   executeMove aceOnSecond \<lparr> type = ''cascade'', index = 4, cardIndex = 5 \<rparr>
     \<lparr> type = ''open'', index = 0, cardIndex = 0 \<rparr> = (Inr (), twoInCell) \<and>
   foundation twoInCell = [[], [Some (Card 1 spades)], [], []] \<and>
   cardAt (open twoInCell) 0 0 = Inr (Card 2 spades) \<and>
   getValidFoundation twoInCell \<lparr> type = ''open'', index = 0, cardIndex = 0 \<rparr> = Inr 1"
  by code_simp

text \<open>
  C2 (counterexample). A source of a kind that is none of the three is not rejected: the
  move from a pile of kind \<open>bogus\<close> to cascade pile 1 is reported valid.
\<close>

theorem isValidMove_unknown_kind_accepted:
  "isValidMove dealtGame (Some \<lparr> type = ''bogus'', index = 0, cardIndex = 0 \<rparr>)
     (Some \<lparr> type = ''cascade'', index = 1, cardIndex = 0 \<rparr>) = Inr True"
  by code_simp

text \<open>
  C2 (amended). Among pile references of the kinds foundation, open and cascade, every
  combination that is not one of the six legal ones (that is, every move from a
  foundation pile) makes \<open>isValidMove\<close> return false.
\<close>

theorem isValidMove_unmatched_kinds:
  assumes "type s \<in> {''foundation'', ''open'', ''cascade''}"
    and "type d \<in> {''foundation'', ''open'', ''cascade''}"
    and "(type s, type d) \<notin> {(''cascade'', ''open''), (''cascade'', ''cascade''),
           (''cascade'', ''foundation''), (''open'', ''cascade''), (''open'', ''open''),
           (''open'', ''foundation'')}"
  shows "isValidMove g (Some s) (Some d) = Inr False"
proof -
  from assms have "type s = ''foundation''" by auto
  then show ?thesis by (simp add: isValidMove_def)
qed

theorem isValidMove_unmatched_kinds_witness:
  "isValidMove dealtGame (Some \<lparr> type = ''foundation'', index = 0, cardIndex = 0 \<rparr>)
     (Some \<lparr> type = ''cascade'', index = 1, cardIndex = 0 \<rparr>) = Inr False"
  by (rule isValidMove_unmatched_kinds) simp_all

text \<open>
  C3 (counterexample). The argument 3.5 is not an integer, and construction succeeds
  with 3 open piles.
\<close>

theorem construction_accepts_fraction:
  "map_sum id getNumOpen (FreecellGame noShuffle (Num (7 / 2)) (Num 8)) = Inr 3"
  by code_simp

text \<open>
  C3 (amended). Construction fails with the error naming the number of open piles when
  that argument is not a number from 1 to 52 (\<^verbatim>\<open>NaN\<close> and the infinities included), and
  with the error naming the number of cascade piles when the first argument is such a
  number and the second is not. Every pair of numbers from 1 to 52, integers or not, is
  accepted, and the game has as many piles as their integer parts say.
\<close>

theorem construction_range:
  "((\<forall>x. numOpen = Num x \<longrightarrow> x < 1 \<or> 52 < x) \<longrightarrow>
      FreecellGame rnd numOpen numCascade = Inl (InvalidOpenPiles numOpen)) \<and>
   ((\<exists>x. numOpen = Num x \<and> 1 \<le> x \<and> x \<le> 52) \<and>
    (\<forall>y. numCascade = Num y \<longrightarrow> y < 1 \<or> 52 < y) \<longrightarrow>
      FreecellGame rnd numOpen numCascade = Inl (InvalidCascadePiles numCascade)) \<and>
   (\<forall>x y. numOpen = Num x \<and> 1 \<le> x \<and> x \<le> 52 \<and> numCascade = Num y \<and> 1 \<le> y \<and> y \<le> 52 \<longrightarrow>
      (\<exists>g. FreecellGame rnd numOpen numCascade = Inr g \<and>
           length (foundation g) = 4 \<and>
           length (open g) = nat \<lfloor>x\<rfloor> \<and> length (cascade g) = nat \<lfloor>y\<rfloor>))"
proof (intro conjI impI allI)
  assume "\<forall>x. numOpen = Num x \<longrightarrow> x < 1 \<or> 52 < x"
  then show "FreecellGame rnd numOpen numCascade = Inl (InvalidOpenPiles numOpen)"
    by (cases numOpen) (auto simp: FreecellGame_def)
next
  assume a: "(\<exists>x. numOpen = Num x \<and> 1 \<le> x \<and> x \<le> 52) \<and>
    (\<forall>y. numCascade = Num y \<longrightarrow> y < 1 \<or> 52 < y)"
  then obtain x where x: "numOpen = Num x" "1 \<le> x" "x \<le> 52" by blast
  from a have "\<forall>y. numCascade = Num y \<longrightarrow> y < 1 \<or> 52 < y" by blast
  then show "FreecellGame rnd numOpen numCascade = Inl (InvalidCascadePiles numCascade)"
    using x by (cases numCascade) (auto simp: FreecellGame_def)
next
  fix x y
  assume "numOpen = Num x \<and> 1 \<le> x \<and> x \<le> 52 \<and> numCascade = Num y \<and> 1 \<le> y \<and> y \<le> 52"
  then show "\<exists>g. FreecellGame rnd numOpen numCascade = Inr g \<and>
           length (foundation g) = 4 \<and>
           length (open g) = nat \<lfloor>x\<rfloor> \<and> length (cascade g) = nat \<lfloor>y\<rfloor>"
    by (auto simp: FreecellGame_def deal_length)
qed

theorem construction_range_witness:
  "FreecellGame noShuffle (Num 53) (Num 8) = Inl (InvalidOpenPiles (Num 53)) \<and>
   FreecellGame noShuffle (Num 4) (Num 0) = Inl (InvalidCascadePiles (Num 0)) \<and>
   (\<exists>g. FreecellGame noShuffle (Num (7 / 2)) (Num 8) = Inr g \<and>
        length (foundation g) = 4 \<and> length (open g) = 3 \<and> length (cascade g) = 8)"
proof -
  have a: "\<forall>x. Num 53 = Num x \<longrightarrow> x < 1 \<or> 52 < x" by simp
  have b: "(\<exists>x. Num 4 = Num x \<and> 1 \<le> x \<and> x \<le> 52) \<and> (\<forall>y. Num 0 = Num y \<longrightarrow> y < 1 \<or> 52 < y)"
    by simp
  have c: "Num (7 / 2) = Num (7 / 2) \<and> (1::rat) \<le> 7 / 2 \<and> (7 / 2 :: rat) \<le> 52 \<and>
           Num 8 = Num 8 \<and> (1::rat) \<le> 8 \<and> (8::rat) \<le> 52" by simp
  have "\<lfloor>7 / 2 :: rat\<rfloor> = 3" by (simp add: floor_eq_iff)
  then have f: "nat \<lfloor>7 / 2 :: rat\<rfloor> = 3" "nat \<lfloor>8 :: rat\<rfloor> = 8" by simp_all
  from construction_range [of "Num 53" noShuffle "Num 8"] a
  have 1: "FreecellGame noShuffle (Num 53) (Num 8) = Inl (InvalidOpenPiles (Num 53))" by blast
  from construction_range [of "Num 4" noShuffle "Num 0"] b
  have 2: "FreecellGame noShuffle (Num 4) (Num 0) = Inl (InvalidCascadePiles (Num 0))" by blast
  from construction_range [of "Num (7 / 2)" noShuffle "Num 8"] c
  have 3: "\<exists>g. FreecellGame noShuffle (Num (7 / 2)) (Num 8) = Inr g \<and>
        length (foundation g) = 4 \<and> length (open g) = nat \<lfloor>7 / 2 :: rat\<rfloor> \<and>
        length (cascade g) = nat \<lfloor>8::rat\<rfloor>" by blast
  from 1 2 3 show ?thesis unfolding f by blast
qed

text \<open>
  C4 (counterexample). In the game dealt by the constructor with 4 open piles, the move
  from the empty open pile 0 to the empty open pile 1 is accepted by \<open>isValidMove\<close>, and
  \<open>executeMove\<close> pushes \<^verbatim>\<open>undefined\<close> on pile 1: the piles then hold 53 entries, one
  of them no card.
\<close>

theorem deck_not_kept_from_empty_cell:
  "FreecellGame noShuffle (Num 4) (Num 8) = Inr dealtGame \<and>
   isValidMove dealtGame (Some \<lparr> type = ''open'', index = 0, cardIndex = 0 \<rparr>)
     (Some \<lparr> type = ''open'', index = 1, cardIndex = 0 \<rparr>) = Inr True \<and>
   fst (executeMove dealtGame \<lparr> type = ''open'', index = 0, cardIndex = 0 \<rparr>
          \<lparr> type = ''open'', index = 1, cardIndex = 0 \<rparr>) = Inr () \<and>
   size (allCards (snd (executeMove dealtGame \<lparr> type = ''open'', index = 0, cardIndex = 0 \<rparr>
          \<lparr> type = ''open'', index = 1, cardIndex = 0 \<rparr>))) = 53 \<and>
   count (allCards (snd (executeMove dealtGame \<lparr> type = ''open'', index = 0, cardIndex = 0 \<rparr>
          \<lparr> type = ''open'', index = 1, cardIndex = 0 \<rparr>))) None = 1 \<and>
   allCards (snd (executeMove dealtGame \<lparr> type = ''open'', index = 0, cardIndex = 0 \<rparr>
          \<lparr> type = ''open'', index = 1, cardIndex = 0 \<rparr>)) \<noteq> fullDeck"
  by code_simp

text \<open>
  C4 (amended). Every state reached from a constructed game by calls of \<open>executeMove\<close>
  on moves that \<open>isValidMove\<close> accepts and whose source pile is not empty, and by calls
  of \<open>attemptAutoMove\<close>, holds in its piles the 52 cards of the deck and nothing else,
  each rank and suit once; every such \<open>executeMove\<close> keeps the multiset of the cards in
  the piles.
\<close>

theorem reachable_holds_deck:
  assumes "reachable g"
  shows "allCards g = fullDeck \<and> size (allCards g) = 52 \<and> count (allCards g) None = 0 \<and>
         (\<forall>v u. count (allCards g) (Some (Card v u)) = (if 1 \<le> v \<and> v \<le> 13 then 1 else 0)) \<and>
         (\<forall>s d. isValidMove g (Some s) (Some d) = Inr True \<and> sourcePile g s \<noteq> Some [] \<longrightarrow>
            allCards (snd (executeMove g s d)) = allCards g)"
proof -
  have a: "allCards g = fullDeck" using assms by (rule reachable_allCards)
  have "\<forall>s d. isValidMove g (Some s) (Some d) = Inr True \<and> sourcePile g s \<noteq> Some [] \<longrightarrow>
            allCards (snd (executeMove g s d)) = allCards g"
    by (simp add: executeMove_valid_allCards)
  with a show ?thesis by (simp add: fullDeck_size fullDeck_count)
qed

theorem reachable_holds_deck_witness:
  "reachable aceOnSecond \<and> allCards aceOnSecond = fullDeck \<and> size (allCards aceOnSecond) = 52 \<and>
   count (allCards aceOnSecond) (Some (Card 1 spades)) = 1"
proof -
  let ?s = "\<lparr> type = ''cascade'', index = 0, cardIndex = 6 \<rparr>"
  let ?d = "\<lparr> type = ''foundation'', index = 1, cardIndex = 0 \<rparr>"
  have "\<forall>i. noShuffle i \<le> i" by (simp add: noShuffle_def)
  moreover have "FreecellGame noShuffle (Num 4) (Num 8) = Inr dealtGame" by code_simp
  ultimately have r0: "reachable dealtGame" by (rule reachable.constructed)
  have v: "isValidMove dealtGame (Some ?s) (Some ?d) = Inr True" by code_simp
  have n: "sourcePile dealtGame ?s \<noteq> Some []" by code_simp
  have r: "reachable aceOnSecond"
    unfolding aceOnSecond_def using r0 v n by (rule reachable.moved)
  note t = reachable_holds_deck [OF r]
  from t have 1: "allCards aceOnSecond = fullDeck" by blast
  from t have 2: "size (allCards aceOnSecond) = 52" by blast
  from t have "\<forall>v u. count (allCards aceOnSecond) (Some (Card v u)) =
                 (if 1 \<le> v \<and> v \<le> 13 then 1 else 0)" by blast
  then have "count (allCards aceOnSecond) (Some (Card 1 spades)) =
               (if (1::int) \<le> 1 \<and> (1::int) \<le> 13 then 1 else 0)" by blast
  then have 3: "count (allCards aceOnSecond) (Some (Card 1 spades)) = 1" by simp
  from r 1 2 3 show ?thesis by blast
qed

text \<open>
  C5. For a destination cascade pile that exists, \<open>numCanMove\<close> returns
  \<open>(numEmptyOpen + 1) * 2 ^ numEmptyCascade\<close>, with \<open>numEmptyOpen\<close> the number of empty
  open piles and \<open>numEmptyCascade\<close> the number of empty cascade piles other than the
  destination. A cascade to cascade move onto that pile, when it is not empty, is rejected
  by \<open>isValidMove\<close> whenever the run (pile length minus \<open>cardIndex\<close>) is longer than that.
\<close>

theorem numCanMove_bound:
  assumes "elem (cascade g) destPileIndex = Some pd"
  shows "numCanMove g destPileIndex =
           Inr (of_nat ((length (filter (\<lambda>p. p = []) (open g)) + 1) *
                   2 ^ length (filter (\<lambda>i. i \<noteq> nat destPileIndex \<and> cascade g ! i = [])
                                 [0..<length (cascade g)]))) \<and>
         (\<forall>s d ps. type s = ''cascade'' \<and> type d = ''cascade'' \<and> index d = destPileIndex \<and>
              pd \<noteq> [] \<and> elem (cascade g) (index s) = Some ps \<and>
              int (length ps) - cardIndex s >
                int ((length (filter (\<lambda>p. p = []) (open g)) + 1) *
                   2 ^ length (filter (\<lambda>i. i \<noteq> nat destPileIndex \<and> cascade g ! i = [])
                                 [0..<length (cascade g)]))
              \<longrightarrow> isValidMove g (Some s) (Some d) = Inr False)"
proof (intro conjI allI impI)
  let ?b = "(length (filter (\<lambda>p. p = []) (open g)) + 1) *
                   2 ^ length (filter (\<lambda>i. i \<noteq> nat destPileIndex \<and> cascade g ! i = [])
                                 [0..<length (cascade g)])"
  show n: "numCanMove g destPileIndex = Inr (of_nat ?b)"
    by (rule numCanMove_filter [OF assms])
  fix s d :: pile_ref and ps :: pile
  assume h: "type s = ''cascade'' \<and> type d = ''cascade'' \<and> index d = destPileIndex \<and>
              pd \<noteq> [] \<and> elem (cascade g) (index s) = Some ps \<and>
              int (length ps) - cardIndex s > int ?b"
  then have "(of_int (int (length ps) - cardIndex s) :: rat) > of_int (int ?b)"
    by (simp only: of_int_less_iff)
  then have gt: "(of_int (int (length ps) - cardIndex s) :: rat) > of_nat ?b"
    by simp
  show "isValidMove g (Some s) (Some d) = Inr False"
  proof (cases "index s = index d")
    case True
    with h show ?thesis by (simp add: isValidMove_def)
  next
    case False
    with h assms n gt show ?thesis
      by (simp add: isValidMove_def)
  qed
qed

theorem numCanMove_bound_witness:
  "numCanMove dealtGame 0 = Inr 5 \<and>
   isValidMove dealtGame (Some \<lparr> type = ''cascade'', index = 1, cardIndex = 0 \<rparr>)
     (Some \<lparr> type = ''cascade'', index = 0, cardIndex = 0 \<rparr>) = Inr False \<and>
   numCanMove queenOnKing 7 = Inr 3"
proof -
  have e0: "elem (cascade dealtGame) 0 = Some (cascade dealtGame ! 0)" by code_simp
  have e1: "elem (cascade dealtGame) 1 = Some (cascade dealtGame ! 1)" by code_simp
  have e7: "elem (cascade queenOnKing) 7 = Some []" by code_simp
  have b0: "(length (filter (\<lambda>p. p = []) (open dealtGame)) + 1) *
              2 ^ length (filter (\<lambda>i. i \<noteq> nat 0 \<and> cascade dealtGame ! i = [])
                            [0..<length (cascade dealtGame)]) = 5" by code_simp
  have b7: "(length (filter (\<lambda>p. p = []) (open queenOnKing)) + 1) *
              2 ^ length (filter (\<lambda>i. i \<noteq> nat 7 \<and> cascade queenOnKing ! i = [])
                            [0..<length (cascade queenOnKing)]) = 3" by code_simp
  have ne: "cascade dealtGame ! 0 \<noteq> []" by code_simp
  have len: "int (length (cascade dealtGame ! 1)) = 7" by code_simp
  note t0 = numCanMove_bound [OF e0, unfolded b0]
  note t7 = numCanMove_bound [OF e7, unfolded b7]
  from t0 have 1: "numCanMove dealtGame 0 = Inr 5" by simp
  from t0 have "\<forall>s d ps. type s = ''cascade'' \<and> type d = ''cascade'' \<and> index d = 0 \<and>
       cascade dealtGame ! 0 \<noteq> [] \<and> elem (cascade dealtGame) (index s) = Some ps \<and>
       int (length ps) - cardIndex s > int 5 \<longrightarrow> isValidMove dealtGame (Some s) (Some d) = Inr False"
    by blast
  from this [rule_format, of "\<lparr> type = ''cascade'', index = 1, cardIndex = 0 \<rparr>"
      "\<lparr> type = ''cascade'', index = 0, cardIndex = 0 \<rparr>" "cascade dealtGame ! 1"] e1 ne len
  have 2: "isValidMove dealtGame (Some \<lparr> type = ''cascade'', index = 1, cardIndex = 0 \<rparr>)
     (Some \<lparr> type = ''cascade'', index = 0, cardIndex = 0 \<rparr>) = Inr False" by simp
  from t7 have 3: "numCanMove queenOnKing 7 = Inr 3" by simp
  from 1 2 3 show ?thesis by blast
qed

text \<open>
  C6. A cascade to cascade move between two different piles is valid whenever the
  destination pile is empty, whatever the source, its run and \<open>numCanMove\<close>. Onto a pile
  that is not empty it is valid exactly when the run is no longer than \<open>numCanMove\<close>, is
  a build, and its first card stacks on the destination's top card.
\<close>

theorem empty_cascade_destination:
  assumes "type s = ''cascade''" and "type d = ''cascade''" and "index s \<noteq> index d"
    and "elem (cascade g) (index d) = Some pd"
  shows "(pd = [] \<longrightarrow> isValidMove g (Some s) (Some d) = Inr True) \<and>
         (pd \<noteq> [] \<longrightarrow> (\<forall>ps. elem (cascade g) (index s) = Some ps \<longrightarrow>
            (\<exists>n. numCanMove g (index d) = Inr n \<and>
               isValidMove g (Some s) (Some d) =
                 Inr (of_int (int (length ps) - cardIndex s) \<le> n \<and>
                      buildFrom ps (cardIndex s) \<and>
                      isStackable (last pd) (slot ps (cardIndex s))))))"
proof (intro conjI impI allI)
  assume "pd = []"
  with assms show "isValidMove g (Some s) (Some d) = Inr True"
    by (simp add: isValidMove_def)
next
  fix ps
  assume ne: "pd \<noteq> []" and ps: "elem (cascade g) (index s) = Some ps"
  obtain n where n: "numCanMove g (index d) = Inr n"
    using numCanMove_value [OF assms(4)] by blast
  have "isValidMove g (Some s) (Some d) =
          Inr (of_int (int (length ps) - cardIndex s) \<le> n \<and>
               buildFrom ps (cardIndex s) \<and>
               isStackable (last pd) (slot ps (cardIndex s)))"
    using assms ne ps n
    by (simp add: isValidMove_def isBuild_def slot_last not_less del: buildFrom.simps)
  with n show "\<exists>n. numCanMove g (index d) = Inr n \<and>
               isValidMove g (Some s) (Some d) =
                 Inr (of_int (int (length ps) - cardIndex s) \<le> n \<and>
                      buildFrom ps (cardIndex s) \<and>
                      isStackable (last pd) (slot ps (cardIndex s)))"
    by blast
qed

theorem empty_cascade_destination_witness:
  "isValidMove queenOnKing (Some \<lparr> type = ''cascade'', index = 0, cardIndex = 0 \<rparr>)
     (Some \<lparr> type = ''cascade'', index = 7, cardIndex = 0 \<rparr>) = Inr True \<and>
   isValidMove queenOnKing (Some \<lparr> type = ''cascade'', index = 8, cardIndex = 0 \<rparr>)
     (Some \<lparr> type = ''cascade'', index = 0, cardIndex = 0 \<rparr>) = Inr True \<and>
   isValidMove queenOnKing (Some \<lparr> type = ''cascade'', index = 4, cardIndex = 0 \<rparr>)
     (Some \<lparr> type = ''cascade'', index = 0, cardIndex = 0 \<rparr>) = Inr False"
proof -
  let ?k = "\<lparr> type = ''cascade'', index = 0, cardIndex = 0 \<rparr>"
  let ?e = "\<lparr> type = ''cascade'', index = 7, cardIndex = 0 \<rparr>"
  let ?j = "\<lparr> type = ''cascade'', index = 8, cardIndex = 0 \<rparr>"
  let ?q = "\<lparr> type = ''cascade'', index = 4, cardIndex = 0 \<rparr>"
  have e7: "elem (cascade queenOnKing) (index ?e) = Some []" by code_simp
  have e0: "elem (cascade queenOnKing) (index ?k) = Some [Some (Card 13 spades), Some (Card 12 hearts)]"
    by code_simp
  have e8: "elem (cascade queenOnKing) (index ?j) = Some [Some (Card 11 spades)]" by code_simp
  have e4: "elem (cascade queenOnKing) (index ?q) = Some [Some (Card 12 spades)]" by code_simp
  have n: "numCanMove queenOnKing 0 = Inr 6" by code_simp
  have b8: "buildFrom [Some (Card 11 spades)] 0" by code_simp
  have s8: "isStackable (Some (Card 12 hearts)) (slot [Some (Card 11 spades)] 0)" by code_simp
  have s4: "\<not> isStackable (Some (Card 12 hearts)) (slot [Some (Card 12 spades)] 0)" by code_simp
  have 1: "isValidMove queenOnKing (Some ?k) (Some ?e) = Inr True"
    using empty_cascade_destination [of ?k ?e queenOnKing "[]"] e7 by simp
  have 2: "isValidMove queenOnKing (Some ?j) (Some ?k) = Inr True"
    using empty_cascade_destination [of ?j ?k queenOnKing, OF _ _ _ e0] e8 n b8 s8 by simp
  have 3: "isValidMove queenOnKing (Some ?q) (Some ?k) = Inr False"
    using empty_cascade_destination [of ?q ?k queenOnKing, OF _ _ _ e0] e4 n s4 by simp
  from 1 2 3 show ?thesis by blast
qed

text \<open>
  C7 (counterexample). Two moves that \<open>isValidMove\<close> accepts and in which no card is
  removed and appended. From the empty open pile 0 of \<open>spreadGame\<close> to open pile 1,
  \<open>executeMove\<close> pops \<^verbatim>\<open>undefined\<close> and pushes it: the destination holds one entry that
  is no card. From cascade pile 51 to an open pile 7 that does not exist, \<open>executeMove\<close>
  throws and the card stays.
\<close>

theorem executeMove_without_card:
  "FreecellGame noShuffle (Num 2) (Num 52) = Inr spreadGame \<and>
   isValidMove spreadGame (Some \<lparr> type = ''open'', index = 0, cardIndex = 0 \<rparr>)
     (Some \<lparr> type = ''open'', index = 1, cardIndex = 0 \<rparr>) = Inr True \<and>
   open spreadGame = [[], []] \<and>
   executeMove spreadGame \<lparr> type = ''open'', index = 0, cardIndex = 0 \<rparr>
     \<lparr> type = ''open'', index = 1, cardIndex = 0 \<rparr> =
     (Inr (), spreadGame \<lparr> open := [[], [None]] \<rparr>) \<and>
   isValidMove spreadGame (Some \<lparr> type = ''cascade'', index = 51, cardIndex = 0 \<rparr>)
     (Some \<lparr> type = ''open'', index = 7, cardIndex = 0 \<rparr>) = Inr True \<and>
   executeMove spreadGame \<lparr> type = ''cascade'', index = 51, cardIndex = 0 \<rparr>
     \<lparr> type = ''open'', index = 7, cardIndex = 0 \<rparr> = (Inl TypeError, spreadGame)"
  by code_simp

text \<open>
  C7 (amended). For a move that \<open>isValidMove\<close> accepts, between piles that exist:
  from a cascade pile holding a card to an open or a foundation pile, \<open>executeMove\<close>
  removes the top card of the source pile and appends it to the destination; from a
  cascade pile to a cascade pile it cuts the source pile at \<open>cardIndex\<close> (as \<^verbatim>\<open>slice\<close>
  reads it) and appends the cards from there to the end, in their order, to the
  destination; from an open pile holding a card it removes the pile's last card, its only
  one when it holds one, and appends it to the destination. No other pile changes.
\<close>

theorem executeMove_effect:
  assumes "isValidMove g (Some s) (Some d) = Inr True"
  shows
   "(\<forall>ps x od. type s = ''cascade'' \<and> type d = ''open'' \<and>
        elem (cascade g) (index s) = Some (ps @ [x]) \<and> elem (open g) (index d) = Some od \<longrightarrow>
        executeMove g s d =
          (Inr (), g\<lparr> cascade := (cascade g)[nat (index s) := ps],
                      open := (open g)[nat (index d) := od @ [x]] \<rparr>)) \<and>
    (\<forall>ps x fd. type s = ''cascade'' \<and> type d = ''foundation'' \<and>
        elem (cascade g) (index s) = Some (ps @ [x]) \<and>
        elem (foundation g) (index d) = Some fd \<longrightarrow>
        executeMove g s d =
          (Inr (), g\<lparr> cascade := (cascade g)[nat (index s) := ps],
                      foundation := (foundation g)[nat (index d) := fd @ [x]] \<rparr>)) \<and>
    (\<forall>ps pd. type s = ''cascade'' \<and> type d = ''cascade'' \<and>
        elem (cascade g) (index s) = Some ps \<and> elem (cascade g) (index d) = Some pd \<longrightarrow>
        executeMove g s d =
          (Inr (), g\<lparr> cascade := (cascade g)[nat (index s) := sliceTo ps (cardIndex s),
                                              nat (index d) := pd @ sliceFrom ps (cardIndex s)] \<rparr>) \<and>
        (0 \<le> cardIndex s \<and> cardIndex s \<le> int (length ps) \<longrightarrow>
           sliceTo ps (cardIndex s) = take (nat (cardIndex s)) ps \<and>
           sliceFrom ps (cardIndex s) = drop (nat (cardIndex s)) ps)) \<and>
    (\<forall>ps x od. type s = ''open'' \<and> type d = ''open'' \<and>
        elem (open g) (index s) = Some (ps @ [x]) \<and> elem (open g) (index d) = Some od \<longrightarrow>
        executeMove g s d =
          (Inr (), g\<lparr> open := (open g)[nat (index s) := ps, nat (index d) := od @ [x]] \<rparr>)) \<and>
    (\<forall>ps x cd. type s = ''open'' \<and> type d = ''cascade'' \<and>
        elem (open g) (index s) = Some (ps @ [x]) \<and> elem (cascade g) (index d) = Some cd \<longrightarrow>
        executeMove g s d =
          (Inr (), g\<lparr> open := (open g)[nat (index s) := ps],
                      cascade := (cascade g)[nat (index d) := cd @ [x]] \<rparr>)) \<and>
    (\<forall>ps x fd. type s = ''open'' \<and> type d = ''foundation'' \<and>
        elem (open g) (index s) = Some (ps @ [x]) \<and>
        elem (foundation g) (index d) = Some fd \<longrightarrow>
        executeMove g s d =
          (Inr (), g\<lparr> open := (open g)[nat (index s) := ps],
                      foundation := (foundation g)[nat (index d) := fd @ [x]] \<rparr>))"
proof -
  have neq: "type s = type d \<Longrightarrow> index s \<noteq> index d"
    using assms by (auto simp: isValidMove_def split: if_splits)
  have pop: "\<And>ps x. pop (ps @ [x]) = (x, ps)" by (simp add: pop_def)
  have A: "\<forall>ps x od. type s = ''cascade'' \<and> type d = ''open'' \<and>
        elem (cascade g) (index s) = Some (ps @ [x]) \<and> elem (open g) (index d) = Some od \<longrightarrow>
        executeMove g s d =
          (Inr (), g\<lparr> cascade := (cascade g)[nat (index s) := ps],
                      open := (open g)[nat (index d) := od @ [x]] \<rparr>)"
    by (simp add: executeMove_def pop)
  have B: "\<forall>ps x fd. type s = ''cascade'' \<and> type d = ''foundation'' \<and>
        elem (cascade g) (index s) = Some (ps @ [x]) \<and>
        elem (foundation g) (index d) = Some fd \<longrightarrow>
        executeMove g s d =
          (Inr (), g\<lparr> cascade := (cascade g)[nat (index s) := ps],
                      foundation := (foundation g)[nat (index d) := fd @ [x]] \<rparr>)"
    by (simp add: executeMove_def pop)
  have C: "\<forall>ps pd. type s = ''cascade'' \<and> type d = ''cascade'' \<and>
        elem (cascade g) (index s) = Some ps \<and> elem (cascade g) (index d) = Some pd \<longrightarrow>
        executeMove g s d =
          (Inr (), g\<lparr> cascade := (cascade g)[nat (index s) := sliceTo ps (cardIndex s),
                                              nat (index d) := pd @ sliceFrom ps (cardIndex s)] \<rparr>) \<and>
        (0 \<le> cardIndex s \<and> cardIndex s \<le> int (length ps) \<longrightarrow>
           sliceTo ps (cardIndex s) = take (nat (cardIndex s)) ps \<and>
           sliceFrom ps (cardIndex s) = drop (nat (cardIndex s)) ps)"
  proof (intro allI impI)
    fix ps pd
    assume h: "type s = ''cascade'' \<and> type d = ''cascade'' \<and>
        elem (cascade g) (index s) = Some ps \<and> elem (cascade g) (index d) = Some pd"
    then have ne: "index s \<noteq> index d" using neq by simp
    from h have d0: "0 \<le> index s" by (simp add: elem_def split: if_splits)
    have "elem ((cascade g)[nat (index s) := sliceTo ps (cardIndex s)]) (index d) = Some pd"
      using h ne d0 by (simp add: elem_update_other)
    with h have "executeMove g s d =
          (Inr (), g\<lparr> cascade := (cascade g)[nat (index s) := sliceTo ps (cardIndex s),
                                              nat (index d) := pd @ sliceFrom ps (cardIndex s)] \<rparr>)"
      by (simp add: executeMove_def)
    then show "executeMove g s d =
          (Inr (), g\<lparr> cascade := (cascade g)[nat (index s) := sliceTo ps (cardIndex s),
                                              nat (index d) := pd @ sliceFrom ps (cardIndex s)] \<rparr>) \<and>
        (0 \<le> cardIndex s \<and> cardIndex s \<le> int (length ps) \<longrightarrow>
           sliceTo ps (cardIndex s) = take (nat (cardIndex s)) ps \<and>
           sliceFrom ps (cardIndex s) = drop (nat (cardIndex s)) ps)"
      using slice_in_range [of "cardIndex s" ps] by blast
  qed
  have D: "\<forall>ps x od. type s = ''open'' \<and> type d = ''open'' \<and>
        elem (open g) (index s) = Some (ps @ [x]) \<and> elem (open g) (index d) = Some od \<longrightarrow>
        executeMove g s d =
          (Inr (), g\<lparr> open := (open g)[nat (index s) := ps, nat (index d) := od @ [x]] \<rparr>)"
  proof (intro allI impI)
    fix ps x od
    assume h: "type s = ''open'' \<and> type d = ''open'' \<and>
        elem (open g) (index s) = Some (ps @ [x]) \<and> elem (open g) (index d) = Some od"
    then have ne: "index s \<noteq> index d" using neq by simp
    from h have "nat (index s) \<noteq> nat (index d)" "nat (index d) < length (open g)"
      "open g ! nat (index d) = od"
      using ne by (auto simp: elem_def split: if_splits)
    with h show "executeMove g s d =
          (Inr (), g\<lparr> open := (open g)[nat (index s) := ps, nat (index d) := od @ [x]] \<rparr>)"
      by (simp add: executeMove_def pop)
  qed
  have E: "\<forall>ps x cd. type s = ''open'' \<and> type d = ''cascade'' \<and>
        elem (open g) (index s) = Some (ps @ [x]) \<and> elem (cascade g) (index d) = Some cd \<longrightarrow>
        executeMove g s d =
          (Inr (), g\<lparr> open := (open g)[nat (index s) := ps],
                      cascade := (cascade g)[nat (index d) := cd @ [x]] \<rparr>)"
    by (simp add: executeMove_def pop)
  have F: "\<forall>ps x fd. type s = ''open'' \<and> type d = ''foundation'' \<and>
        elem (open g) (index s) = Some (ps @ [x]) \<and>
        elem (foundation g) (index d) = Some fd \<longrightarrow>
        executeMove g s d =
          (Inr (), g\<lparr> open := (open g)[nat (index s) := ps],
                      foundation := (foundation g)[nat (index d) := fd @ [x]] \<rparr>)"
    by (simp add: executeMove_def pop)
  from A B C D E F show ?thesis by (intro conjI)
qed

theorem executeMove_effect_witness:
  "executeMove spreadGame \<lparr> type = ''cascade'', index = 51, cardIndex = 0 \<rparr>
     \<lparr> type = ''open'', index = 0, cardIndex = 0 \<rparr> =
     (Inr (), spreadGame \<lparr> cascade := (cascade spreadGame)[51 := []],
                           open := [[Some (Card 1 hearts)], []] \<rparr>) \<and>
   executeMove spreadGame \<lparr> type = ''cascade'', index = 48, cardIndex = 0 \<rparr>
     \<lparr> type = ''foundation'', index = 0, cardIndex = 0 \<rparr> =
     (Inr (), spreadGame \<lparr> cascade := (cascade spreadGame)[48 := []],
                           foundation := [[Some (Card 1 spades)], [], [], []] \<rparr>) \<and>
   executeMove queenOnKing \<lparr> type = ''cascade'', index = 0, cardIndex = 1 \<rparr>
     \<lparr> type = ''cascade'', index = 7, cardIndex = 0 \<rparr> =
     (Inr (), queenOnKing \<lparr> cascade := (cascade queenOnKing)
                             [0 := [Some (Card 13 spades)], 7 := [Some (Card 12 hearts)]] \<rparr>) \<and>
   executeMove aceInCell \<lparr> type = ''open'', index = 0, cardIndex = 0 \<rparr>
     \<lparr> type = ''open'', index = 1, cardIndex = 0 \<rparr> =
     (Inr (), aceInCell \<lparr> open := [[], [Some (Card 1 hearts)]] \<rparr>) \<and>
   executeMove aceInCell \<lparr> type = ''open'', index = 0, cardIndex = 0 \<rparr>
     \<lparr> type = ''cascade'', index = 51, cardIndex = 0 \<rparr> =
     (Inr (), aceInCell \<lparr> open := [[], []],
                          cascade := (cascade aceInCell)[51 := [Some (Card 1 hearts)]] \<rparr>) \<and>
   executeMove aceInCell \<lparr> type = ''open'', index = 0, cardIndex = 0 \<rparr>
     \<lparr> type = ''foundation'', index = 2, cardIndex = 0 \<rparr> =
     (Inr (), aceInCell \<lparr> open := [[], []],
                          foundation := [[], [], [Some (Card 1 hearts)], []] \<rparr>)"
proof -
  let ?c51 = "\<lparr> type = ''cascade'', index = 51, cardIndex = 0 \<rparr>"
  let ?c48 = "\<lparr> type = ''cascade'', index = 48, cardIndex = 0 \<rparr>"
  let ?c0 = "\<lparr> type = ''cascade'', index = 0, cardIndex = 1 \<rparr>"
  let ?c7 = "\<lparr> type = ''cascade'', index = 7, cardIndex = 0 \<rparr>"
  let ?o0 = "\<lparr> type = ''open'', index = 0, cardIndex = 0 \<rparr>"
  let ?o1 = "\<lparr> type = ''open'', index = 1, cardIndex = 0 \<rparr>"
  let ?f0 = "\<lparr> type = ''foundation'', index = 0, cardIndex = 0 \<rparr>"
  let ?f2 = "\<lparr> type = ''foundation'', index = 2, cardIndex = 0 \<rparr>"
  have v1: "isValidMove spreadGame (Some ?c51) (Some ?o0) = Inr True" by code_simp
  have v2: "isValidMove spreadGame (Some ?c48) (Some ?f0) = Inr True" by code_simp
  have v3: "isValidMove queenOnKing (Some ?c0) (Some ?c7) = Inr True" by code_simp
  have v4: "isValidMove aceInCell (Some ?o0) (Some ?o1) = Inr True" by code_simp
  have v5: "isValidMove aceInCell (Some ?o0) (Some ?c51) = Inr True" by code_simp
  have v6: "isValidMove aceInCell (Some ?o0) (Some ?f2) = Inr True" by code_simp
  have s51: "elem (cascade spreadGame) 51 = Some ([] @ [Some (Card 1 hearts)])" by code_simp
  have s48: "elem (cascade spreadGame) 48 = Some ([] @ [Some (Card 1 spades)])" by code_simp
  have so: "open spreadGame = [[], []]" by code_simp
  have sf: "foundation spreadGame = [[], [], [], []]" by code_simp
  have q0: "elem (cascade queenOnKing) 0 = Some [Some (Card 13 spades), Some (Card 12 hearts)]"
    by code_simp
  have q7: "elem (cascade queenOnKing) 7 = Some []" by code_simp
  have ao: "open aceInCell = [[Some (Card 1 hearts)], []]" by code_simp
  have af: "foundation aceInCell = [[], [], [], []]" by code_simp
  have a51: "elem (cascade aceInCell) 51 = Some []" by code_simp
  have 1: "executeMove spreadGame ?c51 ?o0 =
     (Inr (), spreadGame \<lparr> cascade := (cascade spreadGame)[51 := []],
                           open := [[Some (Card 1 hearts)], []] \<rparr>)"
    using executeMove_effect [OF v1] s51 so by (simp add: elem_def)
  have 2: "executeMove spreadGame ?c48 ?f0 =
     (Inr (), spreadGame \<lparr> cascade := (cascade spreadGame)[48 := []],
                           foundation := [[Some (Card 1 spades)], [], [], []] \<rparr>)"
    using executeMove_effect [OF v2] s48 sf by (simp add: elem_def)
  have 3: "executeMove queenOnKing ?c0 ?c7 =
     (Inr (), queenOnKing \<lparr> cascade := (cascade queenOnKing)
                             [0 := [Some (Card 13 spades)], 7 := [Some (Card 12 hearts)]] \<rparr>)"
    using executeMove_effect [OF v3] q0 q7 by simp
  have 4: "executeMove aceInCell ?o0 ?o1 = (Inr (), aceInCell \<lparr> open := [[], [Some (Card 1 hearts)]] \<rparr>)"
    using executeMove_effect [OF v4] ao by (simp add: elem_def)
  have 5: "executeMove aceInCell ?o0 ?c51 =
     (Inr (), aceInCell \<lparr> open := [[], []],
                          cascade := (cascade aceInCell)[51 := [Some (Card 1 hearts)]] \<rparr>)"
    using executeMove_effect [OF v5] ao a51 by (simp add: elem_def)
  have 6: "executeMove aceInCell ?o0 ?f2 =
     (Inr (), aceInCell \<lparr> open := [[], []],
                          foundation := [[], [], [Some (Card 1 hearts)], []] \<rparr>)"
    using executeMove_effect [OF v6] ao af by (simp add: elem_def)
  from 1 2 3 4 5 6 show ?thesis by (intro conjI)
qed




text \<open>
  C10. \<open>isValidMove\<close> does not ask for a card in an open source pile. From an empty open
  pile, the move to another empty open pile and the move to an empty cascade pile are
  reported valid; the move to a cascade pile that is not empty is rejected, since
  \<^verbatim>\<open>undefined\<close> stacks on no card.
\<close>

theorem empty_open_source:
  assumes "type s = ''open''" and "elem (open g) (index s) = Some []"
  shows "(type d = ''open'' \<and> index d \<noteq> index s \<and> elem (open g) (index d) = Some []
            \<longrightarrow> isValidMove g (Some s) (Some d) = Inr True) \<and>
         (type d = ''cascade'' \<and> elem (cascade g) (index d) = Some []
            \<longrightarrow> isValidMove g (Some s) (Some d) = Inr True) \<and>
         (\<forall>pd. type d = ''cascade'' \<and> elem (cascade g) (index d) = Some pd \<and> pd \<noteq> []
            \<longrightarrow> isValidMove g (Some s) (Some d) = Inr False)"
  using assms by (auto simp: isValidMove_def slot_def elem_def)

theorem empty_open_source_witness:
  "isValidMove queenOnKing (Some \<lparr> type = ''open'', index = 0, cardIndex = 0 \<rparr>)
     (Some \<lparr> type = ''open'', index = 1, cardIndex = 0 \<rparr>) = Inr True \<and>
   isValidMove queenOnKing (Some \<lparr> type = ''open'', index = 0, cardIndex = 0 \<rparr>)
     (Some \<lparr> type = ''cascade'', index = 7, cardIndex = 0 \<rparr>) = Inr True \<and>
   isValidMove queenOnKing (Some \<lparr> type = ''open'', index = 0, cardIndex = 0 \<rparr>)
     (Some \<lparr> type = ''cascade'', index = 0, cardIndex = 0 \<rparr>) = Inr False"
proof -
  let ?s = "\<lparr> type = ''open'', index = 0, cardIndex = 0 \<rparr>"
  let ?o = "\<lparr> type = ''open'', index = 1, cardIndex = 0 \<rparr>"
  let ?e = "\<lparr> type = ''cascade'', index = 7, cardIndex = 0 \<rparr>"
  let ?k = "\<lparr> type = ''cascade'', index = 0, cardIndex = 0 \<rparr>"
  have s: "type ?s = ''open''" "elem (open queenOnKing) (index ?s) = Some []" by code_simp+
  have o: "elem (open queenOnKing) (index ?o) = Some []" by code_simp
  have e: "elem (cascade queenOnKing) (index ?e) = Some []" by code_simp
  have k: "elem (cascade queenOnKing) (index ?k) = Some [Some (Card 13 spades), Some (Card 12 hearts)]"
    by code_simp
  have 1: "isValidMove queenOnKing (Some ?s) (Some ?o) = Inr True"
    using empty_open_source [OF s, of ?o] o by simp
  have 2: "isValidMove queenOnKing (Some ?s) (Some ?e) = Inr True"
    using empty_open_source [OF s, of ?e] e by simp
  have 3: "isValidMove queenOnKing (Some ?s) (Some ?k) = Inr False"
    using empty_open_source [OF s, of ?k] k by simp
  from 1 2 3 show ?thesis by blast
qed

end
